theory Spec2Isabelle
  imports Main "HOL-Library.Multiset" "HOL-Library.Char_ord" "HOL-Library.List_Lexorder"
begin

section \<open>Domain model (internal/domain)\<close>

text \<open>
  \<^verbatim>\<open>type PRStatus string\<close> with the two constants of models.go. A status is any string;
  the service only ever compares with and writes these two.
\<close>

type_synonym PRStatus = string

definition StatusOpen :: PRStatus where
  "StatusOpen = ''OPEN''"

definition StatusMerged :: PRStatus where
  "StatusMerged = ''MERGED''"

text \<open>Timestamps are opaque; \<^verbatim>\<open>time.Now().UTC()\<close> is an argument of each operation.\<close>

type_synonym Time = int

record User =
  ID :: string
  Username :: string
  TeamName :: string
  IsActive :: bool

record Team =
  Name :: string
  Members :: "User list"

text \<open>\<^verbatim>\<open>MergedAt *time.Time\<close>: the nil pointer is \<open>None\<close>.\<close>

record PullRequest =
  prID :: string
  prName :: string
  AuthorID :: string
  Status :: PRStatus
  AssignedReviewers :: "string list"
  CreatedAt :: Time
  MergedAt :: "Time option"

text \<open>
  The error values of errors.go, and the driver's constraint violation
  (\<^verbatim>\<open>*pgconn.PgError\<close> with its SQLSTATE code and constraint name).
\<close>

datatype error =
    ErrTeamExists
  | ErrPRExists
  | ErrPRMerged
  | ErrReviewerNotFound
  | ErrNoReplacement
  | ErrTeamNotFound
  | ErrUserNotFound
  | ErrPullRequestNotFound
  | PgError string string

section \<open>Assignment engine (internal/service)\<close>

subsection \<open>The random source\<close>

text \<open>
  \<^verbatim>\<open>*rand.Rand\<close> is a stream of draws: \<open>Intn r n\<close> reads the next draw, reduces it
  into \<open>[0, n)\<close> and advances the stream. \<^verbatim>\<open>Shuffle\<close> is the Fisher-Yates loop
  \<^verbatim>\<open>for i := n - 1; i > 0; i-- { j := Intn(i + 1); swap(i, j) }\<close> with the swap closure
  of \<^verbatim>\<open>pickReviewers\<close>.
\<close>

type_synonym Rand = "nat \<Rightarrow> nat"

definition Intn :: "Rand \<Rightarrow> nat \<Rightarrow> nat \<times> Rand" where
  "Intn r n = (r 0 mod n, \<lambda>k. r (Suc k))"

definition swap :: "nat \<Rightarrow> nat \<Rightarrow> 'a list \<Rightarrow> 'a list" where
  "swap i j xs = xs[i := xs ! j, j := xs ! i]"

fun shuffleFrom :: "nat \<Rightarrow> Rand \<Rightarrow> 'a list \<Rightarrow> 'a list \<times> Rand" where
  "shuffleFrom 0 r xs = (xs, r)"
| "shuffleFrom (Suc i) r xs =
     (case Intn r (Suc i + 1) of (j, r') \<Rightarrow> shuffleFrom i r' (swap (Suc i) j xs))"

definition Shuffle :: "Rand \<Rightarrow> 'a list \<Rightarrow> 'a list \<times> Rand" where
  "Shuffle r xs = shuffleFrom (length xs - 1) r xs"

subsection \<open>Filtering and selection\<close>

fun filterReviewers :: "User list \<Rightarrow> string \<Rightarrow> User list" where
  "filterReviewers [] authorID = []"
| "filterReviewers (user # users) authorID =
     (if ID user = authorID then filterReviewers users authorID
      else if \<not> IsActive user then filterReviewers users authorID
      else user # filterReviewers users authorID)"

fun contains :: "string list \<Rightarrow> string \<Rightarrow> bool" where
  "contains [] target = False"
| "contains (item # items) target = (if item = target then True else contains items target)"

fun filterForReplacement :: "User list \<Rightarrow> string \<Rightarrow> string list \<Rightarrow> User list" where
  "filterForReplacement [] oldReviewerID assigned = []"
| "filterForReplacement (user # users) oldReviewerID assigned =
     (if ID user = oldReviewerID then filterForReplacement users oldReviewerID assigned
      else if \<not> IsActive user then filterForReplacement users oldReviewerID assigned
      else if contains assigned (ID user) then filterForReplacement users oldReviewerID assigned
      else user # filterForReplacement users oldReviewerID assigned)"

text \<open>The result loop \<^verbatim>\<open>for i := 0; i < limit; i++\<close> of \<^verbatim>\<open>pickReviewers\<close>.\<close>

function collectIDs :: "nat \<Rightarrow> nat \<Rightarrow> User list \<Rightarrow> string list \<Rightarrow> string list" where
  "collectIDs i limit copyUsers result =
     (if i < limit then collectIDs (i + 1) limit copyUsers (result @ [ID (copyUsers ! i)])
      else result)"
  by pat_completeness auto
termination
  by (relation "measure (\<lambda>(i, limit, copyUsers, result). limit - i)") auto

declare collectIDs.simps [simp del]

text \<open>
  \<^verbatim>\<open>limit\<close> is a Go \<^verbatim>\<open>int\<close>; a nil slice is the empty list. After the clamp
  \<^verbatim>\<open>if len(copyUsers) < limit { limit = len(copyUsers) }\<close> the index \<open>i\<close> stays in range.
\<close>

definition pickReviewers :: "Rand \<Rightarrow> User list \<Rightarrow> int \<Rightarrow> string list \<times> Rand" where
  "pickReviewers rnd users limit =
     (if length users = 0 \<or> limit \<le> 0 then ([], rnd)
      else case Shuffle rnd users of (copyUsers, rnd') \<Rightarrow>
        let limit' = (if int (length copyUsers) < limit then int (length copyUsers) else limit)
        in (collectIDs 0 (nat limit') copyUsers [], rnd'))"

fun reviewerIndexFrom :: "int \<Rightarrow> string list \<Rightarrow> string \<Rightarrow> int" where
  "reviewerIndexFrom i [] target = - 1"
| "reviewerIndexFrom i (reviewer # reviewers) target =
     (if reviewer = target then i else reviewerIndexFrom (i + 1) reviewers target)"

definition reviewerIndex :: "string list \<Rightarrow> string \<Rightarrow> int" where
  "reviewerIndex reviewers target = reviewerIndexFrom 0 reviewers target"

section \<open>The PostgreSQL store (internal/storage/postgres)\<close>

text \<open>
  The four tables of the migration, each a list of rows in insertion order. A row of
  \<^verbatim>\<open>users\<close> is a \<open>User\<close>; a row of \<^verbatim>\<open>pull_request_reviewers\<close> is the pair
  (pull_request_id, reviewer_id). The columns \<^verbatim>\<open>teams.created_at\<close> and
  \<^verbatim>\<open>users.updated_at\<close> are never read and are left out. A query without
  \<^verbatim>\<open>ORDER BY\<close> returns its rows in table order; \<^verbatim>\<open>ORDER BY\<close> on an id is the
  lexicographic order of strings. Timestamps are stored as they are given.
\<close>

record PRRow =
  pull_request_id :: string
  pull_request_name :: string
  author_id :: string
  status :: string
  created_at :: Time
  merged_at :: "Time option"

record Store =
  teams :: "string list"
  users :: "User list"
  pull_requests :: "PRRow list"
  pull_request_reviewers :: "(string \<times> string) list"

definition emptyStore :: Store where
  "emptyStore = \<lparr>teams = [], users = [], pull_requests = [], pull_request_reviewers = []\<rparr>"

text \<open>
  The schema's constraints: the primary keys of the four tables and the foreign keys into
  \<^verbatim>\<open>teams\<close>, \<^verbatim>\<open>users\<close> and \<^verbatim>\<open>pull_requests\<close>. The database enforces them, and
  every store the service reaches satisfies them (lemma \<open>reachable_schemaOK\<close>).
\<close>

definition schemaOK :: "Store \<Rightarrow> bool" where
  "schemaOK st \<longleftrightarrow>
     distinct (teams st) \<and>
     distinct (map ID (users st)) \<and>
     distinct (map pull_request_id (pull_requests st)) \<and>
     distinct (pull_request_reviewers st) \<and>
     (\<forall>u \<in> set (users st). TeamName u \<in> set (teams st)) \<and>
     (\<forall>row \<in> set (pull_requests st). author_id row \<in> ID ` set (users st)) \<and>
     (\<forall>(p, r) \<in> set (pull_request_reviewers st).
        p \<in> pull_request_id ` set (pull_requests st) \<and> r \<in> ID ` set (users st))"

fun translateError :: "error \<Rightarrow> error" where
  "translateError (PgError code constraintName) =
     (if code = ''23505'' then
        (if constraintName = ''teams_pkey'' then ErrTeamExists
         else if constraintName = ''pull_requests_pkey'' then ErrPRExists
         else PgError code constraintName)
      else PgError code constraintName)"
| "translateError err = err"

definition Store_GetUser :: "Store \<Rightarrow> string \<Rightarrow> error + User" where
  "Store_GetUser st userID =
     (case find (\<lambda>u. ID u = userID) (users st) of
        None \<Rightarrow> Inl ErrUserNotFound
      | Some user \<Rightarrow> Inr user)"

definition Store_ListUsersByTeam :: "Store \<Rightarrow> string \<Rightarrow> error + User list" where
  "Store_ListUsersByTeam st teamName =
     (if teamName \<notin> set (teams st) then Inl ErrTeamNotFound
      else Inr (filter (\<lambda>u. TeamName u = teamName) (users st)))"

text \<open>
  \<^verbatim>\<open>GetPullRequest\<close> reads the header row and then the reviewer ids
  \<^verbatim>\<open>ORDER BY reviewer_id\<close>.
\<close>

definition reviewersOf :: "Store \<Rightarrow> string \<Rightarrow> string list" where
  "reviewersOf st prid = sort (map snd (filter (\<lambda>(p, r). p = prid) (pull_request_reviewers st)))"

definition Store_GetPullRequest :: "Store \<Rightarrow> string \<Rightarrow> error + PullRequest" where
  "Store_GetPullRequest st prid =
     (case find (\<lambda>row. pull_request_id row = prid) (pull_requests st) of
        None \<Rightarrow> Inl ErrPullRequestNotFound
      | Some row \<Rightarrow>
          Inr \<lparr>prID = pull_request_id row, prName = pull_request_name row,
               AuthorID = author_id row, Status = status row,
               AssignedReviewers = reviewersOf st prid,
               CreatedAt = created_at row, MergedAt = merged_at row\<rparr>)"

definition headerOf :: "PullRequest \<Rightarrow> PRRow" where
  "headerOf pr =
     \<lparr>pull_request_id = prID pr, pull_request_name = prName pr, author_id = AuthorID pr,
      status = Status pr, created_at = CreatedAt pr, merged_at = MergedAt pr\<rparr>"

text \<open>The statements run inside a transaction, each failing on the constraint it violates.\<close>

definition insertPullRequest :: "Store \<Rightarrow> PRRow \<Rightarrow> error + Store" where
  "insertPullRequest st row =
     (if pull_request_id row \<in> pull_request_id ` set (pull_requests st)
        then Inl (PgError ''23505'' ''pull_requests_pkey'')
      else if author_id row \<notin> ID ` set (users st)
        then Inl (PgError ''23503'' ''pull_requests_author_id_fkey'')
      else Inr (st\<lparr>pull_requests := pull_requests st @ [row]\<rparr>))"

definition insertReviewer :: "Store \<Rightarrow> string \<Rightarrow> string \<Rightarrow> error + Store" where
  "insertReviewer st prid reviewer =
     (if (prid, reviewer) \<in> set (pull_request_reviewers st)
        then Inl (PgError ''23505'' ''pull_request_reviewers_pkey'')
      else if prid \<notin> pull_request_id ` set (pull_requests st)
        then Inl (PgError ''23503'' ''pull_request_reviewers_pull_request_id_fkey'')
      else if reviewer \<notin> ID ` set (users st)
        then Inl (PgError ''23503'' ''pull_request_reviewers_reviewer_id_fkey'')
      else Inr (st\<lparr>pull_request_reviewers := pull_request_reviewers st @ [(prid, reviewer)]\<rparr>))"

fun insertReviewers :: "Store \<Rightarrow> string \<Rightarrow> string list \<Rightarrow> error + Store" where
  "insertReviewers st prid [] = Inr st"
| "insertReviewers st prid (reviewer # reviewers) =
     (case insertReviewer st prid reviewer of
        Inl err \<Rightarrow> Inl err
      | Inr st' \<Rightarrow> insertReviewers st' prid reviewers)"

text \<open>
  \<^verbatim>\<open>UPDATE pull_requests SET ... WHERE pull_request_id = $1\<close>, with the number of rows
  affected, and \<^verbatim>\<open>DELETE FROM pull_request_reviewers WHERE pull_request_id = $1\<close>.
\<close>

definition updatePullRequest :: "Store \<Rightarrow> PRRow \<Rightarrow> error + Store \<times> nat" where
  "updatePullRequest st row =
     (let affected = length (filter (\<lambda>r. pull_request_id r = pull_request_id row) (pull_requests st))
      in if 0 < affected \<and> author_id row \<notin> ID ` set (users st)
           then Inl (PgError ''23503'' ''pull_requests_author_id_fkey'')
         else Inr (st\<lparr>pull_requests :=
                       map (\<lambda>r. if pull_request_id r = pull_request_id row then row else r)
                         (pull_requests st)\<rparr>, affected))"

definition deleteReviewers :: "Store \<Rightarrow> string \<Rightarrow> Store" where
  "deleteReviewers st prid =
     st\<lparr>pull_request_reviewers := filter (\<lambda>(p, r). p \<noteq> prid) (pull_request_reviewers st)\<rparr>"

text \<open>A failed transaction is rolled back: the store is the one before the call.\<close>

definition Store_CreatePullRequest :: "Store \<Rightarrow> PullRequest \<Rightarrow> (error + PullRequest) \<times> Store" where
  "Store_CreatePullRequest st pr =
     (case insertPullRequest st (headerOf pr) of
        Inl err \<Rightarrow> (Inl (translateError err), st)
      | Inr st1 \<Rightarrow>
          (case insertReviewers st1 (prID pr) (AssignedReviewers pr) of
             Inl err \<Rightarrow> (Inl (translateError err), st)
           | Inr st2 \<Rightarrow> (Store_GetPullRequest st2 (prID pr), st2)))"

definition Store_UpdatePullRequest :: "Store \<Rightarrow> PullRequest \<Rightarrow> (error + PullRequest) \<times> Store" where
  "Store_UpdatePullRequest st pr =
     (case updatePullRequest st (headerOf pr) of
        Inl err \<Rightarrow> (Inl (translateError err), st)
      | Inr (st1, affected) \<Rightarrow>
          if affected = 0 then (Inl (translateError ErrPullRequestNotFound), st)
          else
            (case insertReviewers (deleteReviewers st1 (prID pr)) (prID pr) (AssignedReviewers pr) of
               Inl err \<Rightarrow> (Inl (translateError err), st)
             | Inr st2 \<Rightarrow> (Store_GetPullRequest st2 (prID pr), st2)))"

text \<open>
  \<^verbatim>\<open>CreateTeam\<close>: the team row, then one upsert per member
  (\<^verbatim>\<open>ON CONFLICT (user_id) DO UPDATE\<close>); \<^verbatim>\<open>GetTeam\<close> lists the members
  \<^verbatim>\<open>ORDER BY user_id\<close>.
\<close>

definition upsertUser :: "Store \<Rightarrow> User \<Rightarrow> Store" where
  "upsertUser st u =
     (if ID u \<in> ID ` set (users st)
        then st\<lparr>users := map (\<lambda>v. if ID v = ID u then u else v) (users st)\<rparr>
      else st\<lparr>users := users st @ [u]\<rparr>)"

fun upsertMembers :: "Store \<Rightarrow> string \<Rightarrow> User list \<Rightarrow> Store" where
  "upsertMembers st teamName [] = st"
| "upsertMembers st teamName (member # members) =
     upsertMembers (upsertUser st (member\<lparr>TeamName := teamName\<rparr>)) teamName members"

definition Store_GetTeam :: "Store \<Rightarrow> string \<Rightarrow> error + Team" where
  "Store_GetTeam st name =
     (if name \<notin> set (teams st) then Inl ErrTeamNotFound
      else Inr \<lparr>Name = name,
                Members = sort_key ID (filter (\<lambda>u. TeamName u = name) (users st))\<rparr>)"

definition Store_CreateTeam :: "Store \<Rightarrow> Team \<Rightarrow> (error + Team) \<times> Store" where
  "Store_CreateTeam st team =
     (if Name team \<in> set (teams st) then (Inl (translateError ErrTeamExists), st)
      else
        let st1 = st\<lparr>teams := teams st @ [Name team]\<rparr>;
            st2 = upsertMembers st1 (Name team) (Members team)
        in (Store_GetTeam st2 (Name team), st2))"

definition Store_SetUserActive :: "Store \<Rightarrow> string \<Rightarrow> bool \<Rightarrow> (error + User) \<times> Store" where
  "Store_SetUserActive st userID isActive =
     (case find (\<lambda>u. ID u = userID) (users st) of
        None \<Rightarrow> (Inl ErrUserNotFound, st)
      | Some user \<Rightarrow>
          (Inr (user\<lparr>IsActive := isActive\<rparr>),
           st\<lparr>users := map (\<lambda>v. if ID v = userID then v\<lparr>IsActive := isActive\<rparr> else v) (users st)\<rparr>))"

section \<open>The reviewer service (internal/service)\<close>

text \<open>
  Each operation takes the store, the random source and the current time where it reads
  them, and returns its result with the store and the random source after the call.
\<close>

definition CreateTeam :: "Store \<Rightarrow> Team \<Rightarrow> (error + Team) \<times> Store" where
  "CreateTeam st team = Store_CreateTeam st team"

definition SetUserActive :: "Store \<Rightarrow> string \<Rightarrow> bool \<Rightarrow> (error + User) \<times> Store" where
  "SetUserActive st userID isActive = Store_SetUserActive st userID isActive"

definition CreatePullRequest ::
  "Store \<Rightarrow> Rand \<Rightarrow> Time \<Rightarrow> PullRequest \<Rightarrow> (error + PullRequest) \<times> Store \<times> Rand" where
  "CreatePullRequest st rnd now pr =
     (case Store_GetUser st (AuthorID pr) of
        Inl err \<Rightarrow> (Inl err, st, rnd)
      | Inr author \<Rightarrow>
          (case Store_ListUsersByTeam st (TeamName author) of
             Inl err \<Rightarrow> (Inl err, st, rnd)
           | Inr members \<Rightarrow>
               let candidates = filterReviewers members (AuthorID pr)
               in case pickReviewers rnd candidates 2 of
                    (picked, rnd') \<Rightarrow>
                      (case Store_CreatePullRequest st
                              (pr\<lparr>AssignedReviewers := picked, Status := StatusOpen,
                                  CreatedAt := now\<rparr>) of
                         (res, st') \<Rightarrow> (res, st', rnd'))))"

definition MergePullRequest ::
  "Store \<Rightarrow> Time \<Rightarrow> string \<Rightarrow> (error + PullRequest) \<times> Store" where
  "MergePullRequest st now prid =
     (case Store_GetPullRequest st prid of
        Inl err \<Rightarrow> (Inl err, st)
      | Inr pr \<Rightarrow>
          if Status pr = StatusMerged then (Inr pr, st)
          else Store_UpdatePullRequest st (pr\<lparr>Status := StatusMerged, MergedAt := Some now\<rparr>))"

definition ReassignReviewer ::
  "Store \<Rightarrow> Rand \<Rightarrow> string \<Rightarrow> string \<Rightarrow> (error + PullRequest \<times> string) \<times> Store \<times> Rand" where
  "ReassignReviewer st rnd prid oldReviewerID =
     (case Store_GetPullRequest st prid of
        Inl err \<Rightarrow> (Inl err, st, rnd)
      | Inr pr \<Rightarrow>
          if Status pr = StatusMerged then (Inl ErrPRMerged, st, rnd)
          else
            let index = reviewerIndex (AssignedReviewers pr) oldReviewerID
            in if index = - 1 then (Inl ErrReviewerNotFound, st, rnd)
               else
                 (case Store_GetUser st oldReviewerID of
                    Inl err \<Rightarrow> (Inl err, st, rnd)
                  | Inr oldReviewer \<Rightarrow>
                      (case Store_ListUsersByTeam st (TeamName oldReviewer) of
                         Inl err \<Rightarrow> (Inl err, st, rnd)
                       | Inr members \<Rightarrow>
                           let candidates =
                                 filterForReplacement members oldReviewerID (AssignedReviewers pr)
                           in if length candidates = 0 then (Inl ErrNoReplacement, st, rnd)
                              else
                                (case pickReviewers rnd candidates 1 of
                                   ([], rnd') \<Rightarrow> (Inl ErrNoReplacement, st, rnd')
                                 | (new # rest, rnd') \<Rightarrow>
                                     (case Store_UpdatePullRequest st
                                             (pr\<lparr>AssignedReviewers :=
                                                   (AssignedReviewers pr)[nat index := new]\<rparr>) of
                                        (Inl err, st') \<Rightarrow> (Inl err, st', rnd')
                                      | (Inr updatedPR, st') \<Rightarrow>
                                          (Inr (updatedPR, new), st', rnd'))))))"

text \<open>
  The transport's \<^verbatim>\<open>handleDomainError\<close>: the machine-readable code of each error.
\<close>

fun errorCode :: "error \<Rightarrow> string" where
  "errorCode ErrTeamExists = ''TEAM_EXISTS''"
| "errorCode ErrPRExists = ''PR_EXISTS''"
| "errorCode ErrPRMerged = ''PR_MERGED''"
| "errorCode ErrReviewerNotFound = ''NOT_ASSIGNED''"
| "errorCode ErrNoReplacement = ''NO_CANDIDATE''"
| "errorCode ErrTeamNotFound = ''NOT_FOUND''"
| "errorCode ErrUserNotFound = ''NOT_FOUND''"
| "errorCode ErrPullRequestNotFound = ''NOT_FOUND''"
| "errorCode (PgError code constraintName) = ''INTERNAL''"

text \<open>The store after a successful \<^verbatim>\<open>CreatePullRequest\<close> and \<^verbatim>\<open>UpdatePullRequest\<close> transaction.\<close>

definition afterCreate :: "Store \<Rightarrow> PullRequest \<Rightarrow> Store" where
  "afterCreate st pr =
     st\<lparr>pull_requests := pull_requests st @ [headerOf pr],
        pull_request_reviewers :=
          pull_request_reviewers st @ map (Pair (prID pr)) (AssignedReviewers pr)\<rparr>"

definition afterUpdate :: "Store \<Rightarrow> PullRequest \<Rightarrow> Store" where
  "afterUpdate st pr =
     st\<lparr>pull_requests :=
          map (\<lambda>r. if pull_request_id r = prID pr then headerOf pr else r) (pull_requests st),
        pull_request_reviewers :=
          filter (\<lambda>(p, r). p \<noteq> prID pr) (pull_request_reviewers st) @
          map (Pair (prID pr)) (AssignedReviewers pr)\<rparr>"

section \<open>Reachable stores\<close>

text \<open>
  The stores the service reaches from the empty database by its five writing operations,
  for any arguments, random source and time, where every creation request is one of the
  \<open>accepted\<close> ones. The transport builds a creation request from id, name and author
  only, so its requests carry no merge timestamp.
\<close>

inductive reachable :: "(PullRequest \<Rightarrow> bool) \<Rightarrow> Store \<Rightarrow> bool"
  for accepted :: "PullRequest \<Rightarrow> bool" where
  reachable_empty: "reachable accepted emptyStore"
| reachable_CreateTeam:
    "reachable accepted st \<Longrightarrow> CreateTeam st team = (teamRes, st') \<Longrightarrow>
     reachable accepted st'"
| reachable_SetUserActive:
    "reachable accepted st \<Longrightarrow> SetUserActive st userID isActive = (userRes, st') \<Longrightarrow>
     reachable accepted st'"
| reachable_CreatePullRequest:
    "reachable accepted st \<Longrightarrow> accepted pr \<Longrightarrow>
     CreatePullRequest st rnd now pr = (prRes, st', rnd') \<Longrightarrow> reachable accepted st'"
| reachable_MergePullRequest:
    "reachable accepted st \<Longrightarrow> MergePullRequest st now prid = (prRes, st') \<Longrightarrow>
     reachable accepted st'"
| reachable_ReassignReviewer:
    "reachable accepted st \<Longrightarrow>
     ReassignReviewer st rnd prid oldReviewerID = (reRes, st', rnd') \<Longrightarrow>
     reachable accepted st'"

definition noMergedAt :: "PullRequest \<Rightarrow> bool" where
  "noMergedAt pr \<longleftrightarrow> MergedAt pr = None"

text \<open>A stored pull request has a merge timestamp exactly when its status is MERGED.\<close>

definition mergedAtOK :: "Store \<Rightarrow> bool" where
  "mergedAtOK st \<longleftrightarrow>
     (\<forall>row \<in> set (pull_requests st). (merged_at row \<noteq> None) = (status row = StatusMerged))"

section \<open>Example data\<close>

text \<open>
  The teams and requests of service_test.go, and a random source whose every draw is 0.
\<close>

definition fixedRand :: Rand where
  "fixedRand = (\<lambda>k. 0)"

definition alice :: User where
  "alice = \<lparr>ID = ''u1'', Username = ''Alice'', TeamName = ''backend'', IsActive = True\<rparr>"

definition bob :: User where
  "bob = \<lparr>ID = ''u2'', Username = ''Bob'', TeamName = ''backend'', IsActive = True\<rparr>"

definition charlie :: User where
  "charlie = \<lparr>ID = ''u3'', Username = ''Charlie'', TeamName = ''backend'', IsActive = True\<rparr>"

definition dora :: User where
  "dora = \<lparr>ID = ''u4'', Username = ''Dora'', TeamName = ''backend'', IsActive = True\<rparr>"

definition request :: "string \<Rightarrow> string \<Rightarrow> PullRequest" where
  "request prid name =
     \<lparr>prID = prid, prName = name, AuthorID = ''u1'', Status = [], AssignedReviewers = [],
      CreatedAt = 0, MergedAt = None\<rparr>"

definition teamOf :: "User list \<Rightarrow> Store" where
  "teamOf members =
     \<lparr>teams = [''backend''], users = members, pull_requests = [], pull_request_reviewers = []\<rparr>"

definition openRow :: "string \<Rightarrow> string \<Rightarrow> PRRow" where
  "openRow prid name =
     \<lparr>pull_request_id = prid, pull_request_name = name, author_id = ''u1'',
      status = ''OPEN'', created_at = 1, merged_at = None\<rparr>"

text \<open>
  The store after the creation of \<^verbatim>\<open>TestCreatePullRequestAssignsReviewers\<close> at time 1
  with the random source \<open>fixedRand\<close>.
\<close>

definition reviewStore :: Store where
  "reviewStore =
     \<lparr>teams = [''backend''], users = [alice, bob, charlie],
      pull_requests = [openRow ''pr-1'' ''Initial''],
      pull_request_reviewers = [(''pr-1'', ''u3''), (''pr-1'', ''u2'')]\<rparr>"

text \<open>The store of \<^verbatim>\<open>TestReassignReviewer\<close> when the creation picked u2 and u3.\<close>

definition reassignStore :: Store where
  "reassignStore =
     \<lparr>teams = [''backend''], users = [alice, bob, charlie, dora],
      pull_requests = [openRow ''pr-2'' ''Replace reviewer''],
      pull_request_reviewers = [(''pr-2'', ''u2''), (''pr-2'', ''u3'')]\<rparr>"

text \<open>\<open>reviewStore\<close> after its pull request was merged at time 5.\<close>

definition mergedStore :: Store where
  "mergedStore =
     \<lparr>teams = [''backend''], users = [alice, bob, charlie],
      pull_requests = [(openRow ''pr-1'' ''Initial'')\<lparr>status := ''MERGED'', merged_at := Some 5\<rparr>],
      pull_request_reviewers = [(''pr-1'', ''u2''), (''pr-1'', ''u3'')]\<rparr>"


section \<open>Properties of the assignment engine\<close>

lemma filterReviewers_filter:
  "filterReviewers us a = filter (\<lambda>u. ID u \<noteq> a \<and> IsActive u) us"
  by (induction us) auto

lemma contains_set: "contains xs t \<longleftrightarrow> t \<in> set xs"
  by (induction xs) auto

lemma filterForReplacement_filter:
  "filterForReplacement us old assigned =
     filter (\<lambda>u. ID u \<noteq> old \<and> IsActive u \<and> ID u \<notin> set assigned) us"
  by (induction us) (auto simp: contains_set)

lemma collectIDs_take:
  "limit \<le> length xs \<Longrightarrow>
   collectIDs i limit xs acc = acc @ map ID (take (limit - i) (drop i xs))"
proof (induction i limit xs acc rule: collectIDs.induct)
  case (1 i limit xs acc)
  show ?case
  proof (cases "i < limit")
    case True
    then have il: "i < length xs" using "1.prems" by simp
    from True obtain d where d: "limit - i = Suc d" by (cases "limit - i") auto
    then have d': "limit - (i + 1) = d" by simp
    have "collectIDs i limit xs acc = collectIDs (i + 1) limit xs (acc @ [ID (xs ! i)])"
      using True by (subst collectIDs.simps) simp
    also have "\<dots> = (acc @ [ID (xs ! i)]) @ map ID (take d (drop (i + 1) xs))"
      using "1.IH" [OF True "1.prems"] d' by simp
    also have "\<dots> = acc @ map ID (take (Suc d) (drop i xs))"
      using il by (simp add: Cons_nth_drop_Suc [symmetric])
    finally show ?thesis using d by simp
  next
    case False
    then show ?thesis by (subst collectIDs.simps) simp
  qed
qed

lemma Intn_less: "0 < n \<Longrightarrow> fst (Intn r n) < n"
  by (simp add: Intn_def)

lemma mset_swap_list: "i < length xs \<Longrightarrow> j < length xs \<Longrightarrow> mset (swap i j xs) = mset xs"
  unfolding swap_def by (metis mset_swap)

lemma length_swap [simp]: "length (swap i j xs) = length xs"
  by (simp add: swap_def)

lemma mset_shuffleFrom:
  "i < length xs \<Longrightarrow> mset (fst (shuffleFrom i r xs)) = mset xs"
proof (induction i arbitrary: r xs)
  case 0
  then show ?case by simp
next
  case (Suc i)
  obtain j r' where jr: "Intn r (Suc i + 1) = (j, r')" by (cases "Intn r (Suc i + 1)")
  have "j < Suc i + 1" using Intn_less [of "Suc i + 1" r] jr by simp
  then have jl: "j < length xs" using Suc.prems by simp
  have "mset (fst (shuffleFrom i r' (swap (Suc i) j xs))) = mset (swap (Suc i) j xs)"
    using Suc.prems by (intro Suc.IH) simp
  then show ?case using jr jl Suc.prems by (simp add: mset_swap_list)
qed

lemma mset_Shuffle: "mset (fst (Shuffle r xs)) = mset xs"
proof (cases xs)
  case Nil
  then show ?thesis by (simp add: Shuffle_def)
next
  case (Cons a list)
  then show ?thesis unfolding Shuffle_def by (intro mset_shuffleFrom) simp
qed

lemma pickReviewers_perm:
  "\<exists>ys. mset ys = mset us \<and>
        fst (pickReviewers rnd us limit) = map ID (take (nat limit) ys)"
proof (cases "length us = 0 \<or> limit \<le> 0")
  case True
  then show ?thesis by (auto simp: pickReviewers_def intro: exI [of _ us])
next
  case False
  obtain ys r' where sh: "Shuffle rnd us = (ys, r')" by (cases "Shuffle rnd us")
  have ms: "mset ys = mset us" using mset_Shuffle [of rnd us] sh by simp
  then have len: "length ys = length us" by (metis size_mset)
  let ?l = "if int (length ys) < limit then int (length ys) else limit"
  have "nat ?l \<le> length ys" by auto
  then have "collectIDs 0 (nat ?l) ys [] = map ID (take (nat ?l) ys)"
    by (simp add: collectIDs_take)
  also have "\<dots> = map ID (take (nat limit) ys)" by auto
  finally have "fst (pickReviewers rnd us limit) = map ID (take (nat limit) ys)"
    using False sh by (simp add: pickReviewers_def Let_def)
  with ms show ?thesis by blast
qed

lemma length_pickReviewers:
  "length (fst (pickReviewers rnd us limit)) = nat (min limit (int (length us)))"
proof -
  obtain ys where ms: "mset ys = mset us"
    and eq: "fst (pickReviewers rnd us limit) = map ID (take (nat limit) ys)"
    using pickReviewers_perm by blast
  have "length ys = length us" using ms by (metis size_mset)
  then show ?thesis using eq by (simp add: min_def) linarith
qed

lemma set_pickReviewers:
  "set (fst (pickReviewers rnd us limit)) \<subseteq> ID ` set us"
proof -
  obtain ys where ms: "mset ys = mset us"
    and eq: "fst (pickReviewers rnd us limit) = map ID (take (nat limit) ys)"
    using pickReviewers_perm by blast
  have "set ys = set us" using ms by (metis set_mset_mset)
  then show ?thesis using eq by (auto dest: in_set_takeD)
qed

lemma distinct_pickReviewers:
  assumes "distinct (map ID us)"
  shows "distinct (fst (pickReviewers rnd us limit))"
proof -
  obtain ys where ms: "mset ys = mset us"
    and eq: "fst (pickReviewers rnd us limit) = map ID (take (nat limit) ys)"
    using pickReviewers_perm by blast
  have "mset (map ID ys) = mset (map ID us)" using ms by simp
  then have "distinct (map ID ys)" using assms by (metis distinct_count_atmost_1 set_mset_mset)
  then have "distinct (take (nat limit) (map ID ys))" by (rule distinct_take)
  then show ?thesis using eq by (simp add: take_map)
qed

lemma mset_pickReviewers_all:
  assumes "int (length us) \<le> limit"
  shows "mset (fst (pickReviewers rnd us limit)) = mset (map ID us)"
proof -
  obtain ys where ms: "mset ys = mset us"
    and eq: "fst (pickReviewers rnd us limit) = map ID (take (nat limit) ys)"
    using pickReviewers_perm by blast
  have "length ys = length us" using ms by (metis size_mset)
  then have "take (nat limit) ys = ys" using assms by simp
  then show ?thesis using eq ms by simp
qed

lemma reviewerIndexFrom_absent:
  "target \<notin> set reviewers \<Longrightarrow> reviewerIndexFrom i reviewers target = - 1"
  by (induction reviewers arbitrary: i) auto

lemma reviewerIndexFrom_present:
  "target \<in> set reviewers \<Longrightarrow>
   i \<le> reviewerIndexFrom i reviewers target \<and>
   reviewerIndexFrom i reviewers target < i + int (length reviewers) \<and>
   reviewers ! nat (reviewerIndexFrom i reviewers target - i) = target"
proof (induction reviewers arbitrary: i)
  case Nil
  then show ?case by simp
next
  case (Cons a reviewers)
  show ?case
  proof (cases "a = target")
    case True
    then show ?thesis by simp
  next
    case False
    then have "target \<in> set reviewers" using Cons.prems by simp
    from Cons.IH [OF this, of "i + 1"]
    have lo: "i + 1 \<le> reviewerIndexFrom (i + 1) reviewers target"
      and hi: "reviewerIndexFrom (i + 1) reviewers target < i + 1 + int (length reviewers)"
      and at: "reviewers ! nat (reviewerIndexFrom (i + 1) reviewers target - (i + 1)) = target"
      by simp_all
    have "nat (reviewerIndexFrom (i + 1) reviewers target - i) =
          Suc (nat (reviewerIndexFrom (i + 1) reviewers target - (i + 1)))"
      using lo by linarith
    then show ?thesis using False lo hi at by simp

  qed
qed

lemma reviewerIndex_absent: "reviewerIndex reviewers target = - 1 \<longleftrightarrow> target \<notin> set reviewers"
  using reviewerIndexFrom_present [of target reviewers 0] reviewerIndexFrom_absent [of target reviewers 0]
  by (auto simp: reviewerIndex_def)

lemma reviewerIndex_present:
  assumes "target \<in> set reviewers"
  shows "0 \<le> reviewerIndex reviewers target"
    and "nat (reviewerIndex reviewers target) < length reviewers"
    and "reviewers ! nat (reviewerIndex reviewers target) = target"
  using reviewerIndexFrom_present [OF assms, of 0] by (auto simp: reviewerIndex_def)

section \<open>Properties of the store\<close>

lemma find_None_image: "find (\<lambda>x. f x = k) xs = None \<longleftrightarrow> k \<notin> f ` set xs"
  by (induction xs) auto

lemma find_Some_mem: "find P xs = Some x \<Longrightarrow> x \<in> set xs \<and> P x"
  by (induction xs) (auto split: if_splits)

lemma find_distinct_key:
  "distinct (map f xs) \<Longrightarrow> x \<in> set xs \<Longrightarrow> find (\<lambda>y. f y = f x) xs = Some x"
  by (induction xs) (auto simp: image_iff)

lemma find_append_fresh:
  "k \<notin> f ` set xs \<Longrightarrow> find (\<lambda>x. f x = k) (xs @ [y]) = (if f y = k then Some y else None)"
  by (induction xs) auto

lemma find_map_replace:
  "k \<in> f ` set xs \<Longrightarrow> f new = k \<Longrightarrow>
   find (\<lambda>x. f x = k) (map (\<lambda>x. if f x = k then new else x) xs) = Some new"
  by (induction xs) auto

lemma map_key_replace:
  "f new = k \<Longrightarrow> map f (map (\<lambda>x. if f x = k then new else x) xs) = map f xs"
  by (induction xs) auto

lemma insertReviewers_Inr:
  "insertReviewers st p rs = Inr st' \<Longrightarrow>
   st' = st\<lparr>pull_request_reviewers := pull_request_reviewers st @ map (Pair p) rs\<rparr> \<and>
   distinct rs \<and> (\<forall>r \<in> set rs. (p, r) \<notin> set (pull_request_reviewers st)) \<and>
   set rs \<subseteq> ID ` set (users st) \<and> (rs \<noteq> [] \<longrightarrow> p \<in> pull_request_id ` set (pull_requests st))"
proof (induction rs arbitrary: st)
  case Nil
  then show ?case by simp
next
  case (Cons r rs)
  from Cons.prems obtain st1 where one: "insertReviewer st p r = Inr st1"
    and rest: "insertReviewers st1 p rs = Inr st'"
    by (auto split: sum.splits)
  from one have st1: "st1 = st\<lparr>pull_request_reviewers := pull_request_reviewers st @ [(p, r)]\<rparr>"
    and r: "(p, r) \<notin> set (pull_request_reviewers st)" "p \<in> pull_request_id ` set (pull_requests st)"
      "r \<in> ID ` set (users st)"
    by (auto simp: insertReviewer_def split: if_splits)
  from Cons.IH [OF rest] show ?case using st1 r by auto
qed

lemma insertReviewers_ok:
  "distinct rs \<Longrightarrow> \<forall>r \<in> set rs. (p, r) \<notin> set (pull_request_reviewers st) \<Longrightarrow>
   set rs \<subseteq> ID ` set (users st) \<Longrightarrow> p \<in> pull_request_id ` set (pull_requests st) \<Longrightarrow>
   insertReviewers st p rs =
     Inr (st\<lparr>pull_request_reviewers := pull_request_reviewers st @ map (Pair p) rs\<rparr>)"
proof (induction rs arbitrary: st)
  case Nil
  then show ?case by simp
next
  case (Cons r rs)
  let ?st1 = "st\<lparr>pull_request_reviewers := pull_request_reviewers st @ [(p, r)]\<rparr>"
  have one: "insertReviewer st p r = Inr ?st1"
    using Cons.prems by (auto simp: insertReviewer_def)
  have "insertReviewers ?st1 p rs =
     Inr (?st1\<lparr>pull_request_reviewers := pull_request_reviewers ?st1 @ map (Pair p) rs\<rparr>)"
    using Cons.prems by (intro Cons.IH) auto
  then show ?case using one by simp
qed

lemma reviewersOf_fresh:
  "\<forall>r. (p, r) \<notin> set rows \<Longrightarrow>
   reviewersOf (st\<lparr>pull_request_reviewers := rows @ map (Pair p) rs\<rparr>) p = sort rs"
proof -
  assume a: "\<forall>r. (p, r) \<notin> set rows"
  then have "filter (\<lambda>(q, r). q = p) rows = []" by (auto simp: filter_empty_conv)
  moreover have "filter (\<lambda>(q, r). q = p) (map (Pair p) rs) = map (Pair p) rs"
    by (induction rs) auto
  ultimately show ?thesis by (simp add: reviewersOf_def comp_def)
qed

lemma schemaOK_no_orphan:
  "schemaOK st \<Longrightarrow> p \<notin> pull_request_id ` set (pull_requests st) \<Longrightarrow>
   (p, r) \<notin> set (pull_request_reviewers st)"
  by (auto simp: schemaOK_def)

lemma schemaOK_reviewersOf:
  assumes "schemaOK st"
  shows "distinct (reviewersOf st p)" and "sorted (reviewersOf st p)"
    and "set (reviewersOf st p) \<subseteq> ID ` set (users st)"
    and "set (reviewersOf st p) = {r. (p, r) \<in> set (pull_request_reviewers st)}"
proof -
  let ?rows = "filter (\<lambda>(q, r). q = p) (pull_request_reviewers st)"
  have d: "distinct ?rows" using assms by (simp add: schemaOK_def)
  have "inj_on snd (set ?rows)" by (auto simp: inj_on_def)
  then have "distinct (map snd ?rows)" using d by (simp add: distinct_map)
  then show "distinct (reviewersOf st p)" by (simp add: reviewersOf_def)
  show "sorted (reviewersOf st p)" by (simp add: reviewersOf_def)
  show "set (reviewersOf st p) = {r. (p, r) \<in> set (pull_request_reviewers st)}"
    by (force simp: reviewersOf_def)
  then show "set (reviewersOf st p) \<subseteq> ID ` set (users st)"
    using assms by (auto simp: schemaOK_def)
qed

lemma Store_GetPullRequest_Inr:
  assumes "Store_GetPullRequest st p = Inr pr"
  shows "prID pr = p" and "headerOf pr \<in> set (pull_requests st)"
    and "AssignedReviewers pr = reviewersOf st p"
    and "p \<in> pull_request_id ` set (pull_requests st)"
proof -
  from assms obtain row where f: "find (\<lambda>row. pull_request_id row = p) (pull_requests st) = Some row"
    and pr: "pr = \<lparr>prID = pull_request_id row, prName = pull_request_name row,
               AuthorID = author_id row, Status = status row,
               AssignedReviewers = reviewersOf st p,
               CreatedAt = created_at row, MergedAt = merged_at row\<rparr>"
    by (auto simp: Store_GetPullRequest_def split: option.splits)
  from find_Some_mem [OF f] have m: "row \<in> set (pull_requests st)" and k: "pull_request_id row = p"
    by simp_all
  show "prID pr = p" using pr k by simp
  have "headerOf pr = row" using pr by (simp add: headerOf_def)
  then show "headerOf pr \<in> set (pull_requests st)" using m by simp
  show "AssignedReviewers pr = reviewersOf st p" using pr by simp
  show "p \<in> pull_request_id ` set (pull_requests st)" using m k by force
qed

lemma Store_GetPullRequest_Inl:
  "Store_GetPullRequest st p = Inl e \<longleftrightarrow>
   e = ErrPullRequestNotFound \<and> p \<notin> pull_request_id ` set (pull_requests st)"
  by (auto simp: Store_GetPullRequest_def find_None_image split: option.splits
      dest!: find_Some_mem)

lemma headerOf_id [simp]: "pull_request_id (headerOf pr) = prID pr"
  and headerOf_author [simp]: "author_id (headerOf pr) = AuthorID pr"
  and headerOf_status [simp]: "status (headerOf pr) = Status pr"
  and headerOf_merged [simp]: "merged_at (headerOf pr) = MergedAt pr"
  by (simp_all add: headerOf_def)

lemma headerOf_reviewers [simp]: "headerOf (pr\<lparr>AssignedReviewers := rs\<rparr>) = headerOf pr"
  by (simp add: headerOf_def)

lemma Store_CreatePullRequest_Inl:
  "Store_CreatePullRequest st pr = (Inl e, st') \<Longrightarrow> st' = st"
  by (auto simp: Store_CreatePullRequest_def Store_GetPullRequest_def find_None_image
      insertPullRequest_def dest!: insertReviewers_Inr split: sum.splits if_splits option.splits)

lemma schemaOK_afterCreate:
  assumes ok: "schemaOK st"
    and fresh: "prID pr \<notin> pull_request_id ` set (pull_requests st)"
    and author: "AuthorID pr \<in> ID ` set (users st)"
    and d: "distinct (AssignedReviewers pr)"
    and sub: "set (AssignedReviewers pr) \<subseteq> ID ` set (users st)"
  shows "schemaOK (afterCreate st pr)"
proof -
  have no: "\<And>r. (prID pr, r) \<notin> set (pull_request_reviewers st)"
    using schemaOK_no_orphan [OF ok fresh] .
  have "distinct (map (Pair (prID pr)) (AssignedReviewers pr))"
    using d by (simp add: distinct_map inj_on_def)
  then have "distinct (pull_request_reviewers st @ map (Pair (prID pr)) (AssignedReviewers pr))"
    using ok no by (auto simp: schemaOK_def)
  then show ?thesis
    using ok fresh author sub
    by (auto simp: schemaOK_def afterCreate_def)
qed

lemma Store_CreatePullRequest_Inr:
  assumes ok: "schemaOK st" and c: "Store_CreatePullRequest st pr = (Inr created, st')"
  shows "created = pr\<lparr>AssignedReviewers := sort (AssignedReviewers pr)\<rparr>"
    and "st' = afterCreate st pr"
    and "prID pr \<notin> pull_request_id ` set (pull_requests st)"
    and "AuthorID pr \<in> ID ` set (users st)"
    and "distinct (AssignedReviewers pr)"
    and "set (AssignedReviewers pr) \<subseteq> ID ` set (users st)"
    and "schemaOK st'"
proof -
  from c obtain st1 st2 where i1: "insertPullRequest st (headerOf pr) = Inr st1"
    and i2: "insertReviewers st1 (prID pr) (AssignedReviewers pr) = Inr st2"
    and g: "Store_GetPullRequest st2 (prID pr) = Inr created" and s: "st' = st2"
    by (auto simp: Store_CreatePullRequest_def split: sum.splits)
  from i1 have st1: "st1 = st\<lparr>pull_requests := pull_requests st @ [headerOf pr]\<rparr>"
    and fresh: "prID pr \<notin> pull_request_id ` set (pull_requests st)"
    and author: "AuthorID pr \<in> ID ` set (users st)"
    by (auto simp: insertPullRequest_def split: if_splits)
  note r = insertReviewers_Inr [OF i2]
  show st': "st' = afterCreate st pr" using r st1 s by (simp add: afterCreate_def)
  show "prID pr \<notin> pull_request_id ` set (pull_requests st)" by (rule fresh)
  show "AuthorID pr \<in> ID ` set (users st)" by (rule author)
  show d: "distinct (AssignedReviewers pr)" using r by simp
  show sub: "set (AssignedReviewers pr) \<subseteq> ID ` set (users st)" using r st1 by simp
  have no: "\<forall>r. (prID pr, r) \<notin> set (pull_request_reviewers st)"
    using schemaOK_no_orphan [OF ok fresh] by blast
  have rv: "reviewersOf st2 (prID pr) = sort (AssignedReviewers pr)"
    using reviewersOf_fresh [OF no, where st = st1 and rs = "AssignedReviewers pr"] r st1 by simp
  have "find (\<lambda>row. pull_request_id row = prID pr) (pull_requests st2) = Some (headerOf pr)"
    using r st1 fresh by (simp add: find_append_fresh)
  then have "Store_GetPullRequest st2 (prID pr) =
      Inr (pr\<lparr>AssignedReviewers := sort (AssignedReviewers pr)\<rparr>)"
    using rv by (simp add: Store_GetPullRequest_def headerOf_def)
  then show "created = pr\<lparr>AssignedReviewers := sort (AssignedReviewers pr)\<rparr>"
    using g by simp
  show "schemaOK st'"
    unfolding st' using ok fresh author d sub by (rule schemaOK_afterCreate)
qed

lemma Store_CreatePullRequest_ok:
  assumes ok: "schemaOK st"
    and fresh: "prID pr \<notin> pull_request_id ` set (pull_requests st)"
    and author: "AuthorID pr \<in> ID ` set (users st)"
    and d: "distinct (AssignedReviewers pr)"
    and sub: "set (AssignedReviewers pr) \<subseteq> ID ` set (users st)"
  shows "Store_CreatePullRequest st pr =
     (Inr (pr\<lparr>AssignedReviewers := sort (AssignedReviewers pr)\<rparr>), afterCreate st pr)"
proof -
  let ?st1 = "st\<lparr>pull_requests := pull_requests st @ [headerOf pr]\<rparr>"
  have i1: "insertPullRequest st (headerOf pr) = Inr ?st1"
    using fresh author by (simp add: insertPullRequest_def)
  have no: "\<forall>r. (prID pr, r) \<notin> set (pull_request_reviewers st)"
    using schemaOK_no_orphan [OF ok fresh] by blast
  have i2: "insertReviewers ?st1 (prID pr) (AssignedReviewers pr) = Inr (afterCreate st pr)"
    using insertReviewers_ok [of "AssignedReviewers pr" "prID pr" ?st1] d no sub
    by (simp add: afterCreate_def)
  have rv: "reviewersOf (afterCreate st pr) (prID pr) = sort (AssignedReviewers pr)"
    using reviewersOf_fresh [OF no, where st = "?st1" and rs = "AssignedReviewers pr"] by (simp add: afterCreate_def)
  have "find (\<lambda>row. pull_request_id row = prID pr) (pull_requests (afterCreate st pr)) =
      Some (headerOf pr)"
    using fresh by (simp add: find_append_fresh afterCreate_def)
  then have "Store_GetPullRequest (afterCreate st pr) (prID pr) =
      Inr (pr\<lparr>AssignedReviewers := sort (AssignedReviewers pr)\<rparr>)"
    using rv by (simp add: Store_GetPullRequest_def headerOf_def)
  then show ?thesis using i1 i2 by (simp add: Store_CreatePullRequest_def)
qed

lemma schemaOK_afterUpdate:
  assumes ok: "schemaOK st"
    and author: "AuthorID pr \<in> ID ` set (users st)"
    and d: "distinct (AssignedReviewers pr)"
    and sub: "set (AssignedReviewers pr) \<subseteq> ID ` set (users st)"
    and ex: "prID pr \<in> pull_request_id ` set (pull_requests st)"
  shows "schemaOK (afterUpdate st pr)"
proof -
  let ?rows = "map (\<lambda>r. if pull_request_id r = prID pr then headerOf pr else r) (pull_requests st)"
  have ids: "map pull_request_id ?rows = map pull_request_id (pull_requests st)"
    by (rule map_key_replace) simp
  then have ids': "pull_request_id ` set ?rows = pull_request_id ` set (pull_requests st)"
    by (metis list.set_map)
  have "distinct (map (Pair (prID pr)) (AssignedReviewers pr))"
    using d by (simp add: distinct_map inj_on_def)
  then have dr: "distinct (filter (\<lambda>(p, r). p \<noteq> prID pr) (pull_request_reviewers st) @
        map (Pair (prID pr)) (AssignedReviewers pr))"
    using ok by (auto simp: schemaOK_def)
  have au: "\<forall>row \<in> set ?rows. author_id row \<in> ID ` set (users st)"
    using ok author by (auto simp: schemaOK_def)
  have fk: "\<forall>(p, r) \<in> set (filter (\<lambda>(p, r). p \<noteq> prID pr) (pull_request_reviewers st) @
        map (Pair (prID pr)) (AssignedReviewers pr)).
        p \<in> pull_request_id ` set (pull_requests st) \<and> r \<in> ID ` set (users st)"
    using ok sub ex by (auto simp: schemaOK_def)
  have d1: "distinct (map pull_request_id ?rows)"
    unfolding ids using ok by (simp add: schemaOK_def)
  have fk': "\<forall>(p, r) \<in> set (filter (\<lambda>(p, r). p \<noteq> prID pr) (pull_request_reviewers st) @
        map (Pair (prID pr)) (AssignedReviewers pr)).
        p \<in> pull_request_id ` set ?rows \<and> r \<in> ID ` set (users st)"
    unfolding ids' by (rule fk)
  have "distinct (teams st)" "distinct (map ID (users st))"
    "\<forall>u \<in> set (users st). TeamName u \<in> set (teams st)"
    using ok by (simp_all add: schemaOK_def)
  with d1 dr au fk' show ?thesis
    unfolding schemaOK_def afterUpdate_def by (simp del: map_map set_map set_append set_filter)
qed

lemma Store_UpdatePullRequest_ok:
  assumes author: "AuthorID pr \<in> ID ` set (users st)"
    and d: "distinct (AssignedReviewers pr)"
    and sub: "set (AssignedReviewers pr) \<subseteq> ID ` set (users st)"
    and ex: "prID pr \<in> pull_request_id ` set (pull_requests st)"
  shows "Store_UpdatePullRequest st pr =
     (Inr (pr\<lparr>AssignedReviewers := sort (AssignedReviewers pr)\<rparr>), afterUpdate st pr)"
proof -
  let ?rows = "map (\<lambda>r. if pull_request_id r = prID pr then headerOf pr else r) (pull_requests st)"
  let ?st1 = "st\<lparr>pull_requests := ?rows\<rparr>"
  have ids: "map pull_request_id ?rows = map pull_request_id (pull_requests st)"
    by (rule map_key_replace) simp
  then have ids': "pull_request_id ` set ?rows = pull_request_id ` set (pull_requests st)"
    by (metis list.set_map)
  from ex have "filter (\<lambda>r. pull_request_id r = prID pr) (pull_requests st) \<noteq> []"
    by (auto simp: filter_empty_conv)
  then have aff: "0 < length (filter (\<lambda>r. pull_request_id r = prID pr) (pull_requests st))"
    by simp
  have u: "updatePullRequest st (headerOf pr) =
      Inr (?st1, length (filter (\<lambda>r. pull_request_id r = prID pr) (pull_requests st)))"
    using author by (simp add: updatePullRequest_def Let_def)
  have i2: "insertReviewers (deleteReviewers ?st1 (prID pr)) (prID pr) (AssignedReviewers pr) =
      Inr (afterUpdate st pr)"
    using insertReviewers_ok [of "AssignedReviewers pr" "prID pr" "deleteReviewers ?st1 (prID pr)"]
      d sub ex ids'
    by (simp add: afterUpdate_def deleteReviewers_def)
  have no: "\<forall>r. (prID pr, r) \<notin> set (filter (\<lambda>(p, r). p \<noteq> prID pr) (pull_request_reviewers st))"
    by auto
  have rv: "reviewersOf (afterUpdate st pr) (prID pr) = sort (AssignedReviewers pr)"
    using reviewersOf_fresh [OF no, where st = "?st1" and rs = "AssignedReviewers pr"] by (simp add: afterUpdate_def)
  have "find (\<lambda>row. pull_request_id row = prID pr) (pull_requests (afterUpdate st pr)) =
      Some (headerOf pr)"
    using find_map_replace [of "prID pr" pull_request_id "pull_requests st" "headerOf pr"] ex
    by (simp add: afterUpdate_def)
  then have "Store_GetPullRequest (afterUpdate st pr) (prID pr) =
      Inr (pr\<lparr>AssignedReviewers := sort (AssignedReviewers pr)\<rparr>)"
    using rv by (simp add: Store_GetPullRequest_def headerOf_def)
  then show ?thesis using u i2 aff by (simp add: Store_UpdatePullRequest_def)
qed

lemma updatePullRequest_reach:
  assumes u: "updatePullRequest st (headerOf pr) = Inr (st1, n)" and n: "n \<noteq> 0"
    and i2: "insertReviewers (deleteReviewers st1 (prID pr)) (prID pr) (AssignedReviewers pr) = Inr st2"
  shows "AuthorID pr \<in> ID ` set (users st)"
    and "distinct (AssignedReviewers pr)"
    and "set (AssignedReviewers pr) \<subseteq> ID ` set (users st)"
    and "prID pr \<in> pull_request_id ` set (pull_requests st)"
proof -
  from u n have st1: "st1 = st\<lparr>pull_requests :=
        map (\<lambda>r. if pull_request_id r = prID pr then headerOf pr else r) (pull_requests st)\<rparr>"
    and nn: "n = length (filter (\<lambda>r. pull_request_id r = prID pr) (pull_requests st))"
    and a: "AuthorID pr \<in> ID ` set (users st)"
    by (auto simp: updatePullRequest_def Let_def split: if_splits)
  show "AuthorID pr \<in> ID ` set (users st)" by (rule a)
  note r = insertReviewers_Inr [OF i2]
  show "distinct (AssignedReviewers pr)" using r by simp
  show "set (AssignedReviewers pr) \<subseteq> ID ` set (users st)"
    using r st1 by (simp add: deleteReviewers_def)
  from n nn have "filter (\<lambda>r. pull_request_id r = prID pr) (pull_requests st) \<noteq> []" by auto
  then show "prID pr \<in> pull_request_id ` set (pull_requests st)"
    by (force simp: filter_empty_conv)
qed

lemma Store_UpdatePullRequest_Inr:
  assumes c: "Store_UpdatePullRequest st pr = (Inr updated, st')"
  shows "AuthorID pr \<in> ID ` set (users st)"
    and "distinct (AssignedReviewers pr)"
    and "set (AssignedReviewers pr) \<subseteq> ID ` set (users st)"
    and "prID pr \<in> pull_request_id ` set (pull_requests st)"
    and "updated = pr\<lparr>AssignedReviewers := sort (AssignedReviewers pr)\<rparr>"
    and "st' = afterUpdate st pr"
proof -
  from c obtain st1 n st2 where u: "updatePullRequest st (headerOf pr) = Inr (st1, n)"
    and n: "n \<noteq> 0"
    and i2: "insertReviewers (deleteReviewers st1 (prID pr)) (prID pr) (AssignedReviewers pr) = Inr st2"
    by (auto simp: Store_UpdatePullRequest_def split: sum.splits prod.splits if_splits)
  note f = updatePullRequest_reach [OF u n i2]
  show "AuthorID pr \<in> ID ` set (users st)" "distinct (AssignedReviewers pr)"
    "set (AssignedReviewers pr) \<subseteq> ID ` set (users st)"
    "prID pr \<in> pull_request_id ` set (pull_requests st)"
    by (rule f)+
  from Store_UpdatePullRequest_ok [OF f] c
  show "updated = pr\<lparr>AssignedReviewers := sort (AssignedReviewers pr)\<rparr>"
    and "st' = afterUpdate st pr" by simp_all
qed

lemma Store_UpdatePullRequest_Inl:
  assumes c: "Store_UpdatePullRequest st pr = (Inl e, st')"
  shows "st' = st"
proof (cases "updatePullRequest st (headerOf pr)")
  case (Inl a)
  then show ?thesis using c by (simp add: Store_UpdatePullRequest_def)
next
  case (Inr b)
  obtain st1 n where b: "b = (st1, n)" by (cases b)
  show ?thesis
  proof (cases "n = 0")
    case True
    then show ?thesis using c Inr b by (simp add: Store_UpdatePullRequest_def)
  next
    case False
    show ?thesis
    proof (cases "insertReviewers (deleteReviewers st1 (prID pr)) (prID pr) (AssignedReviewers pr)")
      case (Inl a)
      then show ?thesis using c Inr b False by (simp add: Store_UpdatePullRequest_def)
    next
      case i2: (Inr st2)
      from Inr b have u: "updatePullRequest st (headerOf pr) = Inr (st1, n)" by simp
      from Store_UpdatePullRequest_ok [OF updatePullRequest_reach [OF u False i2]] c
      show ?thesis by simp
    qed
  qed
qed

lemma upsertUser_frame [simp]:
  "teams (upsertUser st u) = teams st"
  "pull_requests (upsertUser st u) = pull_requests st"
  "pull_request_reviewers (upsertUser st u) = pull_request_reviewers st"
  by (simp_all add: upsertUser_def)

lemma upsertUser_users:
  assumes d: "distinct (map ID (users st))"
  shows "distinct (map ID (users (upsertUser st u)))"
    and "ID ` set (users (upsertUser st u)) = insert (ID u) (ID ` set (users st))"
    and "set (users (upsertUser st u)) \<subseteq> insert u (set (users st))"
proof -
  have m: "map ID (map (\<lambda>v. if ID v = ID u then u else v) (users st)) = map ID (users st)"
    by (rule map_key_replace) simp
  show "distinct (map ID (users (upsertUser st u)))"
    using d m by (auto simp: upsertUser_def simp del: map_map)
  have "ID ` set (map (\<lambda>v. if ID v = ID u then u else v) (users st)) = ID ` set (users st)"
    using m by (metis list.set_map)
  then show "ID ` set (users (upsertUser st u)) = insert (ID u) (ID ` set (users st))"
    by (auto simp: upsertUser_def simp del: set_map)
  show "set (users (upsertUser st u)) \<subseteq> insert u (set (users st))"
    by (auto simp: upsertUser_def)
qed

lemma schemaOK_upsertUser:
  assumes ok: "schemaOK st" and t: "TeamName u \<in> set (teams st)"
  shows "schemaOK (upsertUser st u)"
proof -
  from ok have d: "distinct (map ID (users st))" by (simp add: schemaOK_def)
  note k = upsertUser_users [OF d, of u]
  have "\<forall>v \<in> set (users (upsertUser st u)). TeamName v \<in> set (teams st)"
    using k(3) ok t by (auto simp: schemaOK_def)
  moreover have "ID ` set (users st) \<subseteq> ID ` set (users (upsertUser st u))"
    using k(2) by blast
  ultimately show ?thesis
    using ok k(1) unfolding schemaOK_def by (simp add: subset_iff split_beta)
qed

lemma upsertMembers_frame [simp]:
  "teams (upsertMembers st t ms) = teams st"
  "pull_requests (upsertMembers st t ms) = pull_requests st"
  "pull_request_reviewers (upsertMembers st t ms) = pull_request_reviewers st"
  by (induction ms arbitrary: st) simp_all

lemma schemaOK_upsertMembers:
  "schemaOK st \<Longrightarrow> t \<in> set (teams st) \<Longrightarrow> schemaOK (upsertMembers st t ms)"
proof (induction ms arbitrary: st)
  case Nil
  then show ?case by simp
next
  case (Cons m ms)
  have "schemaOK (upsertUser st (m\<lparr>TeamName := t\<rparr>))"
    using Cons.prems by (intro schemaOK_upsertUser) simp_all
  then show ?case using Cons.prems by (simp add: Cons.IH)
qed

lemma Store_CreateTeam_frame:
  assumes c: "Store_CreateTeam st team = (res, st')"
  shows "pull_requests st' = pull_requests st"
    and "pull_request_reviewers st' = pull_request_reviewers st"
    and "schemaOK st \<Longrightarrow> schemaOK st'"
proof -
  show "pull_requests st' = pull_requests st"
    and "pull_request_reviewers st' = pull_request_reviewers st"
    using c by (auto simp: Store_CreateTeam_def Let_def split: if_splits)
  assume ok: "schemaOK st"
  show "schemaOK st'"
  proof (cases "Name team \<in> set (teams st)")
    case True
    then show ?thesis using c ok by (simp add: Store_CreateTeam_def)
  next
    case False
    let ?st1 = "st\<lparr>teams := teams st @ [Name team]\<rparr>"
    have "schemaOK ?st1" using ok False by (auto simp: schemaOK_def)
    then have "schemaOK (upsertMembers ?st1 (Name team) (Members team))"
      by (rule schemaOK_upsertMembers) simp
    then show ?thesis using c False by (auto simp: Store_CreateTeam_def Let_def)
  qed
qed

lemma Store_SetUserActive_frame:
  assumes c: "Store_SetUserActive st uid b = (res, st')"
  shows "pull_requests st' = pull_requests st"
    and "pull_request_reviewers st' = pull_request_reviewers st"
    and "schemaOK st \<Longrightarrow> schemaOK st'"
proof -
  show "pull_requests st' = pull_requests st"
    and "pull_request_reviewers st' = pull_request_reviewers st"
    using c by (auto simp: Store_SetUserActive_def split: option.splits)
  assume ok: "schemaOK st"
  let ?us = "map (\<lambda>v. if ID v = uid then v\<lparr>IsActive := b\<rparr> else v) (users st)"
  have m: "map ID ?us = map ID (users st)" by (induction "users st") auto
  then have i: "ID ` set ?us = ID ` set (users st)" by (metis list.set_map)
  have t: "\<forall>v \<in> set ?us. TeamName v \<in> set (teams st)"
    using ok by (auto simp: schemaOK_def)
  have "schemaOK (st\<lparr>users := ?us\<rparr>)"
    unfolding schemaOK_def using ok m i t
    by (simp add: schemaOK_def del: map_map set_map)
  then show "schemaOK st'"
    using c ok by (auto simp: Store_SetUserActive_def split: option.splits)
qed

section \<open>Properties of the service operations\<close>

lemma Store_GetUser_Inr:
  "Store_GetUser st uid = Inr u \<Longrightarrow> u \<in> set (users st) \<and> ID u = uid"
  by (auto simp: Store_GetUser_def split: option.splits dest: find_Some_mem)

lemma Store_GetUser_Inl:
  "Store_GetUser st uid = Inl e \<longleftrightarrow> e = ErrUserNotFound \<and> uid \<notin> ID ` set (users st)"
  by (auto simp: Store_GetUser_def find_None_image split: option.splits dest!: find_Some_mem)

lemma Store_GetUser_distinct:
  "distinct (map ID (users st)) \<Longrightarrow> u \<in> set (users st) \<Longrightarrow> Store_GetUser st (ID u) = Inr u"
  by (simp add: Store_GetUser_def find_distinct_key)

lemma Store_ListUsersByTeam_member:
  "schemaOK st \<Longrightarrow> u \<in> set (users st) \<Longrightarrow>
   Store_ListUsersByTeam st (TeamName u) = Inr (filter (\<lambda>v. TeamName v = TeamName u) (users st))"
  by (auto simp: Store_ListUsersByTeam_def schemaOK_def)

text \<open>The selection of \<^verbatim>\<open>CreatePullRequest\<close>: two of the author's active teammates.\<close>

lemma CreatePullRequest_unfold:
  assumes a: "Store_GetUser st (AuthorID pr) = Inr author"
    and m: "Store_ListUsersByTeam st (TeamName author) = Inr members"
  shows "CreatePullRequest st rnd now pr =
     (fst (Store_CreatePullRequest st
        (pr\<lparr>AssignedReviewers := fst (pickReviewers rnd (filterReviewers members (AuthorID pr)) 2),
            Status := StatusOpen, CreatedAt := now\<rparr>)),
      snd (Store_CreatePullRequest st
        (pr\<lparr>AssignedReviewers := fst (pickReviewers rnd (filterReviewers members (AuthorID pr)) 2),
            Status := StatusOpen, CreatedAt := now\<rparr>)),
      snd (pickReviewers rnd (filterReviewers members (AuthorID pr)) 2))"
  using a m by (simp add: CreatePullRequest_def Let_def split: prod.splits)

lemma candidates_props:
  fixes t a :: string
  assumes ok: "schemaOK st"
  defines "cands \<equiv> filterReviewers (filter (\<lambda>u. TeamName u = t) (users st)) a"
  shows "distinct (fst (pickReviewers rnd cands n))"
    and "set (fst (pickReviewers rnd cands n)) \<subseteq> ID ` set cands"
    and "set (fst (pickReviewers rnd cands n)) \<subseteq> ID ` set (users st)"
proof -
  have "distinct (map ID (users st))"
    using ok by (simp add: schemaOK_def)
  then have "distinct (map ID cands)"
    by (simp add: cands_def filterReviewers_filter distinct_map_filter)
  then show "distinct (fst (pickReviewers rnd cands n))" by (rule distinct_pickReviewers)
  show s: "set (fst (pickReviewers rnd cands n)) \<subseteq> ID ` set cands"
    by (rule set_pickReviewers)
  have "set cands \<subseteq> set (users st)" by (auto simp: cands_def filterReviewers_filter)
  then show "set (fst (pickReviewers rnd cands n)) \<subseteq> ID ` set (users st)"
    using s by blast
qed

lemma CreatePullRequest_ok:
  assumes ok: "schemaOK st"
    and a: "Store_GetUser st (AuthorID pr) = Inr author"
    and fresh: "prID pr \<notin> pull_request_id ` set (pull_requests st)"
    and p: "pickReviewers rnd
              (filterReviewers (filter (\<lambda>u. TeamName u = TeamName author) (users st)) (AuthorID pr)) 2 =
            (picked, rnd')"
  shows "CreatePullRequest st rnd now pr =
     (Inr (pr\<lparr>AssignedReviewers := sort picked, Status := StatusOpen, CreatedAt := now\<rparr>),
      afterCreate st (pr\<lparr>AssignedReviewers := picked, Status := StatusOpen, CreatedAt := now\<rparr>),
      rnd')"
proof -
  let ?members = "filter (\<lambda>u. TeamName u = TeamName author) (users st)"
  let ?rec = "pr\<lparr>AssignedReviewers := picked, Status := StatusOpen, CreatedAt := now\<rparr>"
  from Store_GetUser_Inr [OF a] have au: "author \<in> set (users st)" "ID author = AuthorID pr"
    by simp_all
  then have ain: "AuthorID pr \<in> ID ` set (users st)" by force
  have m: "Store_ListUsersByTeam st (TeamName author) = Inr ?members"
    using ok au(1) by (rule Store_ListUsersByTeam_member)
  have pk: "picked = fst (pickReviewers rnd (filterReviewers ?members (AuthorID pr)) 2)"
    using p by simp
  have d: "distinct picked" and sub: "set picked \<subseteq> ID ` set (users st)"
    unfolding pk using candidates_props [OF ok] by blast+
  have "Store_CreatePullRequest st ?rec =
      (Inr (?rec\<lparr>AssignedReviewers := sort (AssignedReviewers ?rec)\<rparr>), afterCreate st ?rec)"
    using ok fresh ain d sub by (intro Store_CreatePullRequest_ok) simp_all
  then show ?thesis
    using CreatePullRequest_unfold [OF a m, of rnd now] p by simp
qed

lemma Store_GetPullRequest_afterCreate:
  assumes ok: "schemaOK st" and fresh: "prID pr \<notin> pull_request_id ` set (pull_requests st)"
  shows "Store_GetPullRequest (afterCreate st pr) (prID pr) =
     Inr (pr\<lparr>AssignedReviewers := sort (AssignedReviewers pr)\<rparr>)"
proof -
  have no: "\<forall>r. (prID pr, r) \<notin> set (pull_request_reviewers st)"
    using schemaOK_no_orphan [OF ok fresh] by blast
  have rv: "reviewersOf (afterCreate st pr) (prID pr) = sort (AssignedReviewers pr)"
    using reviewersOf_fresh [OF no, where st = "st\<lparr>pull_requests := pull_requests st @ [headerOf pr]\<rparr>"
        and rs = "AssignedReviewers pr"]
    by (simp add: afterCreate_def)
  have "find (\<lambda>row. pull_request_id row = prID pr) (pull_requests (afterCreate st pr)) =
      Some (headerOf pr)"
    using fresh by (simp add: find_append_fresh afterCreate_def)
  then show ?thesis using rv by (simp add: Store_GetPullRequest_def headerOf_def)
qed

lemma Store_GetPullRequest_afterUpdate:
  assumes ex: "prID pr \<in> pull_request_id ` set (pull_requests st)"
  shows "Store_GetPullRequest (afterUpdate st pr) (prID pr) =
     Inr (pr\<lparr>AssignedReviewers := sort (AssignedReviewers pr)\<rparr>)"
proof -
  have no: "\<forall>r. (prID pr, r) \<notin> set (filter (\<lambda>(p, r). p \<noteq> prID pr) (pull_request_reviewers st))"
    by auto
  have rv: "reviewersOf (afterUpdate st pr) (prID pr) = sort (AssignedReviewers pr)"
    using reviewersOf_fresh [OF no, where rs = "AssignedReviewers pr" and
        st = "st\<lparr>pull_requests :=
          map (\<lambda>r. if pull_request_id r = prID pr then headerOf pr else r) (pull_requests st)\<rparr>"]
    by (simp add: afterUpdate_def)
  have "find (\<lambda>row. pull_request_id row = prID pr) (pull_requests (afterUpdate st pr)) =
      Some (headerOf pr)"
    using find_map_replace [of "prID pr" pull_request_id "pull_requests st" "headerOf pr"] ex
    by (simp add: afterUpdate_def)
  then show ?thesis using rv by (simp add: Store_GetPullRequest_def headerOf_def)
qed

lemma Store_GetPullRequest_schemaOK:
  assumes ok: "schemaOK st" and g: "Store_GetPullRequest st p = Inr pr"
  shows "AuthorID pr \<in> ID ` set (users st)"
    and "distinct (AssignedReviewers pr)"
    and "sorted (AssignedReviewers pr)"
    and "set (AssignedReviewers pr) \<subseteq> ID ` set (users st)"
    and "prID pr \<in> pull_request_id ` set (pull_requests st)"
proof -
  note r = Store_GetPullRequest_Inr [OF g]
  from r(2) ok have "author_id (headerOf pr) \<in> ID ` set (users st)"
    unfolding schemaOK_def by blast
  then show "AuthorID pr \<in> ID ` set (users st)" by simp
  show "distinct (AssignedReviewers pr)" "sorted (AssignedReviewers pr)"
    "set (AssignedReviewers pr) \<subseteq> ID ` set (users st)"
    unfolding r(3) using schemaOK_reviewersOf [OF ok] by blast+
  show "prID pr \<in> pull_request_id ` set (pull_requests st)" using r(1) r(4) by simp
qed

text \<open>Merging a pull request that is not merged yet.\<close>

lemma MergePullRequest_open:
  assumes ok: "schemaOK st" and g: "Store_GetPullRequest st p = Inr pr"
    and s: "Status pr \<noteq> StatusMerged"
  shows "MergePullRequest st now p =
     (Inr (pr\<lparr>Status := StatusMerged, MergedAt := Some now\<rparr>),
      afterUpdate st (pr\<lparr>Status := StatusMerged, MergedAt := Some now\<rparr>))"
proof -
  let ?pr = "pr\<lparr>Status := StatusMerged, MergedAt := Some now\<rparr>"
  note r = Store_GetPullRequest_schemaOK [OF ok g]
  have "sort (AssignedReviewers pr) = AssignedReviewers pr"
    using r(3) by (simp add: sort_key_id_if_sorted)
  moreover have "Store_UpdatePullRequest st ?pr =
      (Inr (?pr\<lparr>AssignedReviewers := sort (AssignedReviewers ?pr)\<rparr>), afterUpdate st ?pr)"
    using r by (intro Store_UpdatePullRequest_ok) simp_all
  ultimately show ?thesis using g s by (simp add: MergePullRequest_def)
qed

lemma MergePullRequest_merged:
  assumes g: "Store_GetPullRequest st p = Inr pr" and s: "Status pr = StatusMerged"
  shows "MergePullRequest st now p = (Inr pr, st)"
  using g s by (simp add: MergePullRequest_def)

text \<open>Reassignment, step by step.\<close>

lemma ReassignReviewer_unfold:
  assumes g: "Store_GetPullRequest st p = Inr pr"
    and s: "Status pr \<noteq> StatusMerged"
    and i: "old \<in> set (AssignedReviewers pr)"
    and u: "Store_GetUser st old = Inr oldReviewer"
    and m: "Store_ListUsersByTeam st (TeamName oldReviewer) = Inr members"
    and c: "filterForReplacement members old (AssignedReviewers pr) \<noteq> []"
  shows "\<exists>new rest rnd'.
     pickReviewers rnd (filterForReplacement members old (AssignedReviewers pr)) 1 = (new # rest, rnd') \<and>
     ReassignReviewer st rnd p old =
       (case Store_UpdatePullRequest st
               (pr\<lparr>AssignedReviewers :=
                     (AssignedReviewers pr)[nat (reviewerIndex (AssignedReviewers pr) old) := new]\<rparr>) of
          (Inl err, st') \<Rightarrow> (Inl err, st', rnd')
        | (Inr updatedPR, st') \<Rightarrow> (Inr (updatedPR, new), st', rnd'))"
proof -
  let ?cands = "filterForReplacement members old (AssignedReviewers pr)"
  obtain picked rnd' where p: "pickReviewers rnd ?cands 1 = (picked, rnd')"
    by (cases "pickReviewers rnd ?cands 1")
  have "length (fst (pickReviewers rnd ?cands 1)) = nat (min 1 (int (length ?cands)))"
    by (rule length_pickReviewers)
  then have "length picked = 1" using p c by (cases ?cands) simp_all
  then obtain new where pk: "picked = [new]" by (cases picked) auto
  have idx: "reviewerIndex (AssignedReviewers pr) old \<noteq> - 1"
    using i by (simp add: reviewerIndex_absent)
  show ?thesis
    using g s idx u m c p pk
    by (simp add: ReassignReviewer_def Let_def split: sum.splits prod.splits)
qed

lemma ReassignReviewer_Inr:
  assumes r: "ReassignReviewer st rnd p old = (Inr (updated, new), st', rnd')"
  obtains pr oldReviewer members rest where
    "Store_GetPullRequest st p = Inr pr" "Status pr \<noteq> StatusMerged"
    "old \<in> set (AssignedReviewers pr)" "Store_GetUser st old = Inr oldReviewer"
    "Store_ListUsersByTeam st (TeamName oldReviewer) = Inr members"
    "pickReviewers rnd (filterForReplacement members old (AssignedReviewers pr)) 1 = (new # rest, rnd')"
    "Store_UpdatePullRequest st
       (pr\<lparr>AssignedReviewers :=
             (AssignedReviewers pr)[nat (reviewerIndex (AssignedReviewers pr) old) := new]\<rparr>) =
     (Inr updated, st')"
proof -
  from r obtain pr where g: "Store_GetPullRequest st p = Inr pr"
    by (cases "Store_GetPullRequest st p") (auto simp: ReassignReviewer_def)
  from r g have s: "Status pr \<noteq> StatusMerged"
    by (auto simp: ReassignReviewer_def)
  from r g s have i: "old \<in> set (AssignedReviewers pr)"
    by (auto simp: ReassignReviewer_def Let_def reviewerIndex_absent split: if_splits)
  then have idx: "reviewerIndex (AssignedReviewers pr) old \<noteq> - 1"
    by (simp add: reviewerIndex_absent)
  from r g s idx obtain oldReviewer where u: "Store_GetUser st old = Inr oldReviewer"
    by (cases "Store_GetUser st old") (auto simp: ReassignReviewer_def Let_def)
  from r g s idx u obtain members where m: "Store_ListUsersByTeam st (TeamName oldReviewer) = Inr members"
    by (cases "Store_ListUsersByTeam st (TeamName oldReviewer)") (auto simp: ReassignReviewer_def Let_def)
  from r g s idx u m have c: "filterForReplacement members old (AssignedReviewers pr) \<noteq> []"
    by (auto simp: ReassignReviewer_def Let_def split: if_splits)
  from ReassignReviewer_unfold [OF g s i u m c, of rnd] r
  obtain new' rest rnd'' where
    p: "pickReviewers rnd (filterForReplacement members old (AssignedReviewers pr)) 1 = (new' # rest, rnd'')"
    and e: "(case Store_UpdatePullRequest st
               (pr\<lparr>AssignedReviewers :=
                     (AssignedReviewers pr)[nat (reviewerIndex (AssignedReviewers pr) old) := new']\<rparr>) of
          (Inl err, st') \<Rightarrow> (Inl err, st', rnd'')
        | (Inr updatedPR, st') \<Rightarrow> (Inr (updatedPR, new'), st', rnd'')) =
        (Inr (updated, new), st', rnd')"
    by auto
  from e have "new' = new" "rnd'' = rnd'"
    and "Store_UpdatePullRequest st
       (pr\<lparr>AssignedReviewers :=
             (AssignedReviewers pr)[nat (reviewerIndex (AssignedReviewers pr) old) := new']\<rparr>) =
     (Inr updated, st')"
    by (auto split: prod.splits sum.splits)
  with g s i u m p show ?thesis by (intro that) simp_all
qed

lemma Store_ListUsersByTeam_Inr:
  "Store_ListUsersByTeam st t = Inr members \<Longrightarrow>
   members = filter (\<lambda>u. TeamName u = t) (users st)"
  by (auto simp: Store_ListUsersByTeam_def split: if_splits)

lemma replacement_candidate:
  assumes p: "pickReviewers rnd (filterForReplacement members old assigned) 1 = (new # rest, rnd')"
  shows "\<exists>u \<in> set members. ID u = new \<and> ID u \<noteq> old \<and> IsActive u \<and> new \<notin> set assigned"
proof -
  have "new \<in> set (fst (pickReviewers rnd (filterForReplacement members old assigned) 1))"
    using p by simp
  then have "new \<in> ID ` set (filterForReplacement members old assigned)"
    using set_pickReviewers by blast
  then show ?thesis by (auto simp: filterForReplacement_filter)
qed

lemma ReassignReviewer_update_ok:
  assumes ok: "schemaOK st" and g: "Store_GetPullRequest st p = Inr pr"
    and i: "old \<in> set (AssignedReviewers pr)"
    and m: "Store_ListUsersByTeam st t = Inr members"
    and pk: "pickReviewers rnd (filterForReplacement members old (AssignedReviewers pr)) 1 =
           (new # rest, rnd')"
  defines "rs \<equiv> (AssignedReviewers pr)[nat (reviewerIndex (AssignedReviewers pr) old) := new]"
  shows "Store_UpdatePullRequest st (pr\<lparr>AssignedReviewers := rs\<rparr>) =
     (Inr (pr\<lparr>AssignedReviewers := sort rs\<rparr>), afterUpdate st (pr\<lparr>AssignedReviewers := rs\<rparr>))"
    and "set rs = insert new (set (AssignedReviewers pr) - {old})"
    and "Store_GetPullRequest (afterUpdate st (pr\<lparr>AssignedReviewers := rs\<rparr>)) p =
       Inr (pr\<lparr>AssignedReviewers := sort rs\<rparr>)"
proof -
  note r = Store_GetPullRequest_schemaOK [OF ok g]
  note x = reviewerIndex_present [OF i]
  from replacement_candidate [OF pk] obtain u where
    u: "u \<in> set members" "ID u = new" "new \<notin> set (AssignedReviewers pr)"
    by auto
  have "u \<in> set (users st)" using u(1) Store_ListUsersByTeam_Inr [OF m] by simp
  then have nu: "new \<in> ID ` set (users st)" using u(2) by force
  have d: "distinct rs"
    unfolding rs_def using r(2) u(3) by (simp add: distinct_list_update)
  have "set rs \<subseteq> insert new (set (AssignedReviewers pr))"
    unfolding rs_def by (rule set_update_subset_insert)
  then have sub: "set rs \<subseteq> ID ` set (users st)" using nu r(4) by blast
  show "Store_UpdatePullRequest st (pr\<lparr>AssignedReviewers := rs\<rparr>) =
     (Inr (pr\<lparr>AssignedReviewers := sort rs\<rparr>), afterUpdate st (pr\<lparr>AssignedReviewers := rs\<rparr>))"
    using Store_UpdatePullRequest_ok [of "pr\<lparr>AssignedReviewers := rs\<rparr>" st] r(1) r(5) d sub
    by simp
  show "set rs = insert new (set (AssignedReviewers pr) - {old})"
    unfolding rs_def using x(2) x(3) r(2) by (simp add: set_update_distinct)
  have p: "prID pr = p" using Store_GetPullRequest_Inr(1) [OF g] .
  show "Store_GetPullRequest (afterUpdate st (pr\<lparr>AssignedReviewers := rs\<rparr>)) p =
       Inr (pr\<lparr>AssignedReviewers := sort rs\<rparr>)"
    using Store_GetPullRequest_afterUpdate [of "pr\<lparr>AssignedReviewers := rs\<rparr>" st] r(5) p by simp
qed

lemma Store_CreatePullRequest_schemaOK:
  assumes ok: "schemaOK st" and c: "Store_CreatePullRequest st pr = (res, st')"
  shows "schemaOK st'"
proof (cases res)
  case (Inl e)
  then show ?thesis using Store_CreatePullRequest_Inl c ok by blast
next
  case (Inr created)
  then show ?thesis using Store_CreatePullRequest_Inr(7) [OF ok] c by blast
qed

lemma Store_UpdatePullRequest_schemaOK:
  assumes ok: "schemaOK st" and c: "Store_UpdatePullRequest st pr = (res, st')"
  shows "schemaOK st'"
proof (cases res)
  case (Inl e)
  then show ?thesis using Store_UpdatePullRequest_Inl c ok by blast
next
  case (Inr updated)
  with c have u: "Store_UpdatePullRequest st pr = (Inr updated, st')" by simp
  note r = Store_UpdatePullRequest_Inr [OF u]
  show ?thesis unfolding r(6) using ok r(1) r(2) r(3) r(4) by (rule schemaOK_afterUpdate)
qed

lemma CreatePullRequest_schemaOK:
  assumes ok: "schemaOK st" and c: "CreatePullRequest st rnd now pr = (res, st', rnd')"
  shows "schemaOK st'"
  using c ok
  by (auto simp: CreatePullRequest_def Let_def split: sum.splits prod.splits
      dest: Store_CreatePullRequest_schemaOK [OF ok])

lemma MergePullRequest_schemaOK:
  assumes ok: "schemaOK st" and c: "MergePullRequest st now p = (res, st')"
  shows "schemaOK st'"
  using c ok
  by (auto simp: MergePullRequest_def split: sum.splits if_splits
      dest: Store_UpdatePullRequest_schemaOK [OF ok])

lemma ReassignReviewer_schemaOK:
  assumes ok: "schemaOK st" and c: "ReassignReviewer st rnd p old = (res, st', rnd')"
  shows "schemaOK st'"
  using c ok
  by (auto simp: ReassignReviewer_def Let_def split: sum.splits if_splits prod.splits list.splits
      dest: Store_UpdatePullRequest_schemaOK [OF ok])

lemma schemaOK_emptyStore: "schemaOK emptyStore"
  by (simp add: schemaOK_def emptyStore_def)

lemma reachable_schemaOK: "reachable accepted st \<Longrightarrow> schemaOK st"
proof (induction rule: reachable.induct)
  case reachable_empty
  show ?case by (rule schemaOK_emptyStore)
next
  case (reachable_CreateTeam st team teamRes st')
  then show ?case using Store_CreateTeam_frame(3) by (simp add: CreateTeam_def)
next
  case (reachable_SetUserActive st userID isActive userRes st')
  then show ?case using Store_SetUserActive_frame(3) by (simp add: SetUserActive_def)
next
  case (reachable_CreatePullRequest st pr rnd now prRes st' rnd')
  then show ?case using CreatePullRequest_schemaOK by blast
next
  case (reachable_MergePullRequest st now prid prRes st')
  then show ?case using MergePullRequest_schemaOK by blast
next
  case (reachable_ReassignReviewer st rnd prid oldReviewerID reRes st' rnd')
  then show ?case using ReassignReviewer_schemaOK by blast
qed

text \<open>The merge timestamp of the stored rows.\<close>

lemma Store_CreatePullRequest_mergedAtOK:
  assumes ok: "schemaOK st" and inv: "mergedAtOK st"
    and h: "(MergedAt pr \<noteq> None) = (Status pr = StatusMerged)"
    and c: "Store_CreatePullRequest st pr = (res, st')"
  shows "mergedAtOK st'"
proof (cases res)
  case (Inl e)
  then show ?thesis using Store_CreatePullRequest_Inl c inv by blast
next
  case (Inr created)
  with c have "st' = afterCreate st pr" using Store_CreatePullRequest_Inr(2) [OF ok] by blast
  then show ?thesis using inv h by (auto simp: mergedAtOK_def afterCreate_def)
qed

lemma Store_UpdatePullRequest_mergedAtOK:
  assumes inv: "mergedAtOK st"
    and h: "(MergedAt pr \<noteq> None) = (Status pr = StatusMerged)"
    and c: "Store_UpdatePullRequest st pr = (res, st')"
  shows "mergedAtOK st'"
proof (cases res)
  case (Inl e)
  then show ?thesis using Store_UpdatePullRequest_Inl c inv by blast
next
  case (Inr updated)
  with c have "st' = afterUpdate st pr" using Store_UpdatePullRequest_Inr(6) by blast
  then show ?thesis using inv h by (auto simp: mergedAtOK_def afterUpdate_def)
qed

lemma Store_GetPullRequest_mergedAtOK:
  assumes inv: "mergedAtOK st" and g: "Store_GetPullRequest st p = Inr pr"
  shows "(MergedAt pr \<noteq> None) = (Status pr = StatusMerged)"
proof -
  from Store_GetPullRequest_Inr(2) [OF g] inv
  have "(merged_at (headerOf pr) \<noteq> None) = (status (headerOf pr) = StatusMerged)"
    unfolding mergedAtOK_def by blast
  then show ?thesis by simp
qed

lemma StatusOpen_not_Merged [simp]: "StatusOpen \<noteq> StatusMerged"
  by (simp add: StatusOpen_def StatusMerged_def)

lemma CreatePullRequest_mergedAtOK:
  assumes ok: "schemaOK st" and inv: "mergedAtOK st" and n: "MergedAt pr = None"
    and c: "CreatePullRequest st rnd now pr = (res, st', rnd')"
  shows "mergedAtOK st'"
  using c inv n
  by (auto simp: CreatePullRequest_def Let_def split: sum.splits prod.splits
      dest!: Store_CreatePullRequest_mergedAtOK [OF ok inv, rotated])

lemma MergePullRequest_mergedAtOK:
  assumes inv: "mergedAtOK st" and c: "MergePullRequest st now p = (res, st')"
  shows "mergedAtOK st'"
  using c inv
  by (auto simp: MergePullRequest_def split: sum.splits if_splits
      dest!: Store_UpdatePullRequest_mergedAtOK [OF inv, rotated])

lemma ReassignReviewer_mergedAtOK:
  assumes inv: "mergedAtOK st" and c: "ReassignReviewer st rnd p old = (res, st', rnd')"
  shows "mergedAtOK st'"
proof (cases "Store_GetPullRequest st p")
  case (Inl e)
  then show ?thesis using c inv by (simp add: ReassignReviewer_def)
next
  case (Inr pr)
  note h = Store_GetPullRequest_mergedAtOK [OF inv Inr]
  have "mergedAtOK st'"
    if "Store_UpdatePullRequest st (pr\<lparr>AssignedReviewers := rs\<rparr>) = (res, st')" for rs res st'
  proof -
    have "(MergedAt (pr\<lparr>AssignedReviewers := rs\<rparr>) \<noteq> None) =
        (Status (pr\<lparr>AssignedReviewers := rs\<rparr>) = StatusMerged)"
      using h by simp
    with inv show ?thesis using that by (rule Store_UpdatePullRequest_mergedAtOK)
  qed
  then show ?thesis
    using c inv Inr
    by (auto simp: ReassignReviewer_def Let_def
        split: sum.splits if_splits prod.splits list.splits)
qed

lemma reachable_mergedAtOK: "reachable noMergedAt st \<Longrightarrow> mergedAtOK st"
proof (induction rule: reachable.induct)
  case reachable_empty
  show ?case by (simp add: mergedAtOK_def emptyStore_def)
next
  case (reachable_CreateTeam st team teamRes st')
  then show ?case using Store_CreateTeam_frame(1) by (simp add: CreateTeam_def mergedAtOK_def)
next
  case (reachable_SetUserActive st userID isActive userRes st')
  then show ?case using Store_SetUserActive_frame(1) by (simp add: SetUserActive_def mergedAtOK_def)
next
  case (reachable_CreatePullRequest st pr rnd now prRes st' rnd')
  then show ?case
    using CreatePullRequest_mergedAtOK reachable_schemaOK unfolding noMergedAt_def by blast
next
  case (reachable_MergePullRequest st now prid prRes st')
  then show ?case using MergePullRequest_mergedAtOK by blast
next
  case (reachable_ReassignReviewer st rnd prid oldReviewerID reRes st' rnd')
  then show ?case using ReassignReviewer_mergedAtOK by blast
qed

text \<open>Unfolding the example data.\<close>

lemmas fixture_defs = fixedRand_def alice_def bob_def charlie_def dora_def request_def teamOf_def
  openRow_def reviewStore_def reassignStore_def mergedStore_def

lemmas store_defs = Store_GetUser_def Store_ListUsersByTeam_def Store_GetPullRequest_def
  reviewersOf_def Store_CreatePullRequest_def Store_UpdatePullRequest_def insertPullRequest_def
  insertReviewer_def updatePullRequest_def deleteReviewers_def headerOf_def schemaOK_def
  StatusOpen_def StatusMerged_def

lemmas engine_defs = pickReviewers_def Shuffle_def Intn_def swap_def collectIDs.simps
  reviewerIndex_def

text \<open>The example stores are reached through the service.\<close>

lemma example_CreateTeam:
  "CreateTeam emptyStore \<lparr>Name = ''backend'', Members = [alice, bob, charlie]\<rparr> =
     (Inr \<lparr>Name = ''backend'', Members = [alice, bob, charlie]\<rparr>, teamOf [alice, bob, charlie])"
  by (simp add: CreateTeam_def Store_CreateTeam_def Store_GetTeam_def emptyStore_def
      upsertUser_def Let_def fixture_defs)

lemma example_CreatePullRequest:
  "CreatePullRequest (teamOf [alice, bob, charlie]) fixedRand 1 (request ''pr-1'' ''Initial'') =
     (Inr \<lparr>prID = ''pr-1'', prName = ''Initial'', AuthorID = ''u1'', Status = ''OPEN'',
           AssignedReviewers = [''u2'', ''u3''], CreatedAt = 1, MergedAt = None\<rparr>,
      reviewStore,
      snd (snd (CreatePullRequest (teamOf [alice, bob, charlie]) fixedRand 1
        (request ''pr-1'' ''Initial''))))"
  by (simp add: CreatePullRequest_def store_defs engine_defs fixture_defs)

lemma example_MergePullRequest:
  "MergePullRequest reviewStore 5 ''pr-1'' =
     (Inr \<lparr>prID = ''pr-1'', prName = ''Initial'', AuthorID = ''u1'', Status = ''MERGED'',
           AssignedReviewers = [''u2'', ''u3''], CreatedAt = 1, MergedAt = Some 5\<rparr>,
      mergedStore)"
  by (simp add: MergePullRequest_def store_defs fixture_defs)

lemma reachable_examples:
  "reachable noMergedAt (teamOf [alice, bob, charlie])" "reachable noMergedAt reviewStore"
  "reachable noMergedAt mergedStore"
proof -
  show t: "reachable noMergedAt (teamOf [alice, bob, charlie])"
    using reachable_empty example_CreateTeam by (rule reachable_CreateTeam)
  have "noMergedAt (request ''pr-1'' ''Initial'')" by (simp add: request_def noMergedAt_def)
  with t show r: "reachable noMergedAt reviewStore"
    using example_CreatePullRequest by (rule reachable_CreatePullRequest)
  then show "reachable noMergedAt mergedStore"
    using example_MergePullRequest by (rule reachable_MergePullRequest)
qed

section \<open>Creation assigns two reviewers\<close>

text \<open>
  C3: in a store that satisfies the schema's constraints, a pull request created for an
  existing author under an unused id, where the author has at least two active teammates
  other than the author, is created successfully with exactly two reviewers; the author is
  not among them, they are pairwise different, and each is an active user of the author's
  team. The record returned is the one the store holds.
\<close>

theorem CreatePullRequest_two_reviewers:
  assumes ok: "schemaOK st"
    and a: "Store_GetUser st (AuthorID pr) = Inr author"
    and fresh: "prID pr \<notin> pull_request_id ` set (pull_requests st)"
    and two: "2 \<le> length (filter (\<lambda>u. TeamName u = TeamName author \<and> ID u \<noteq> AuthorID pr \<and> IsActive u)
                 (users st))"
  shows "\<exists>created st' rnd'.
     CreatePullRequest st rnd now pr = (Inr created, st', rnd') \<and>
     Store_GetPullRequest st' (prID pr) = Inr created \<and>
     length (AssignedReviewers created) = 2 \<and>
     AuthorID pr \<notin> set (AssignedReviewers created) \<and>
     distinct (AssignedReviewers created) \<and>
     (\<forall>r \<in> set (AssignedReviewers created).
        \<exists>u. Store_GetUser st r = Inr u \<and> IsActive u \<and> TeamName u = TeamName author)"
proof -
  let ?cands = "filterReviewers (filter (\<lambda>u. TeamName u = TeamName author) (users st)) (AuthorID pr)"
  obtain picked rnd' where p: "pickReviewers rnd ?cands 2 = (picked, rnd')"
    by (cases "pickReviewers rnd ?cands 2")
  let ?rec = "pr\<lparr>AssignedReviewers := picked, Status := StatusOpen, CreatedAt := now\<rparr>"
  note c = CreatePullRequest_ok [OF ok a fresh p, of now]
  have pk: "picked = fst (pickReviewers rnd ?cands 2)" using p by simp
  have cand: "?cands =
      filter (\<lambda>u. TeamName u = TeamName author \<and> ID u \<noteq> AuthorID pr \<and> IsActive u) (users st)"
    by (auto simp: filterReviewers_filter intro: filter_cong)
  have "length picked = nat (min 2 (int (length ?cands)))"
    unfolding pk by (rule length_pickReviewers)
  then have len: "length (sort picked) = 2" using two cand by simp
  have d: "distinct picked" and s: "set picked \<subseteq> ID ` set ?cands"
    unfolding pk using candidates_props [OF ok] by blast+
  have "AuthorID pr \<notin> set picked" using s by (auto simp: filterReviewers_filter)
  moreover have "\<forall>r \<in> set picked.
        \<exists>u. Store_GetUser st r = Inr u \<and> IsActive u \<and> TeamName u = TeamName author"
  proof
    fix r assume "r \<in> set picked"
    then obtain u where u: "u \<in> set (users st)" "ID u = r" "IsActive u" "TeamName u = TeamName author"
      using s cand by auto
    have "Store_GetUser st (ID u) = Inr u"
      using ok u(1) by (intro Store_GetUser_distinct) (simp_all add: schemaOK_def)
    then show "\<exists>u. Store_GetUser st r = Inr u \<and> IsActive u \<and> TeamName u = TeamName author"
      using u by auto
  qed
  moreover have "Store_GetPullRequest (afterCreate st ?rec) (prID pr) =
      Inr (?rec\<lparr>AssignedReviewers := sort picked\<rparr>)"
    using Store_GetPullRequest_afterCreate [OF ok, of ?rec] fresh by simp
  ultimately show ?thesis using c d len by simp
qed

theorem CreatePullRequest_two_reviewers_witness:
  "\<exists>created st' rnd'.
     CreatePullRequest (teamOf [alice, bob, charlie]) fixedRand 1 (request ''pr-1'' ''Initial'') =
       (Inr created, st', rnd') \<and>
     Store_GetPullRequest st' ''pr-1'' = Inr created \<and>
     length (AssignedReviewers created) = 2 \<and>
     ''u1'' \<notin> set (AssignedReviewers created) \<and>
     distinct (AssignedReviewers created) \<and>
     (\<forall>r \<in> set (AssignedReviewers created).
        \<exists>u. Store_GetUser (teamOf [alice, bob, charlie]) r = Inr u \<and> IsActive u \<and>
            TeamName u = ''backend'')"
proof -
  have ok: "schemaOK (teamOf [alice, bob, charlie])"
    by (simp add: schemaOK_def fixture_defs)
  have a: "Store_GetUser (teamOf [alice, bob, charlie]) (AuthorID (request ''pr-1'' ''Initial'')) = Inr alice"
    by (simp add: Store_GetUser_def fixture_defs)
  have fresh: "prID (request ''pr-1'' ''Initial'') \<notin>
      pull_request_id ` set (pull_requests (teamOf [alice, bob, charlie]))"
    by (simp add: fixture_defs)
  have two: "2 \<le> length (filter (\<lambda>u. TeamName u = TeamName alice \<and>
        ID u \<noteq> AuthorID (request ''pr-1'' ''Initial'') \<and> IsActive u)
      (users (teamOf [alice, bob, charlie])))"
    by (simp add: fixture_defs)
  have r: "prID (request ''pr-1'' ''Initial'') = ''pr-1''" "AuthorID (request ''pr-1'' ''Initial'') = ''u1''"
    "TeamName alice = ''backend''"
    by (simp_all add: fixture_defs)
  from CreatePullRequest_two_reviewers [OF ok a fresh two, of fixedRand 1]
  show ?thesis unfolding r .
qed

section \<open>Selection returns as many reviewers as the pool allows\<close>

text \<open>
  C4: for every candidate pool and every requested count, \<^verbatim>\<open>pickReviewers\<close> returns
  min(count, pool size) ids (none for a count below zero) and has no error result; when the
  pool is not larger than the count, the ids returned are those of the whole pool. A pull
  request whose author has exactly one active teammate is created with exactly one reviewer.
\<close>

theorem pickReviewers_min_count:
  "length (fst (pickReviewers rnd us limit)) = nat (min limit (int (length us))) \<and>
   (int (length us) \<le> limit \<longrightarrow>
      mset (fst (pickReviewers rnd us limit)) = mset (map ID us)) \<and>
   (schemaOK st \<and> Store_GetUser st (AuthorID pr) = Inr author \<and>
    prID pr \<notin> pull_request_id ` set (pull_requests st) \<and>
    length (filter (\<lambda>u. TeamName u = TeamName author \<and> ID u \<noteq> AuthorID pr \<and> IsActive u)
              (users st)) = 1 \<longrightarrow>
      (\<exists>created st' rnd'. CreatePullRequest st rnd now pr = (Inr created, st', rnd') \<and>
          length (AssignedReviewers created) = 1))"
proof (intro conjI impI)
  show "length (fst (pickReviewers rnd us limit)) = nat (min limit (int (length us)))"
    by (rule length_pickReviewers)
  show "mset (fst (pickReviewers rnd us limit)) = mset (map ID us)"
    if "int (length us) \<le> limit"
    using that by (rule mset_pickReviewers_all)
next
  assume h: "schemaOK st \<and> Store_GetUser st (AuthorID pr) = Inr author \<and>
    prID pr \<notin> pull_request_id ` set (pull_requests st) \<and>
    length (filter (\<lambda>u. TeamName u = TeamName author \<and> ID u \<noteq> AuthorID pr \<and> IsActive u)
              (users st)) = 1"
  let ?cands = "filterReviewers (filter (\<lambda>u. TeamName u = TeamName author) (users st)) (AuthorID pr)"
  obtain picked rnd' where p: "pickReviewers rnd ?cands 2 = (picked, rnd')"
    by (cases "pickReviewers rnd ?cands 2")
  have cand: "?cands =
      filter (\<lambda>u. TeamName u = TeamName author \<and> ID u \<noteq> AuthorID pr \<and> IsActive u) (users st)"
    by (auto simp: filterReviewers_filter intro: filter_cong)
  have "length (fst (pickReviewers rnd ?cands 2)) = nat (min 2 (int (length ?cands)))"
    by (rule length_pickReviewers)
  then have "length picked = 1" using p h cand by simp
  then have "length (sort picked) = 1" by simp
  with CreatePullRequest_ok [of st pr author rnd picked rnd' now] h p
  show "\<exists>created st' rnd'. CreatePullRequest st rnd now pr = (Inr created, st', rnd') \<and>
          length (AssignedReviewers created) = 1"
    by simp
qed

theorem pickReviewers_min_count_witness:
  "length (fst (pickReviewers fixedRand [bob] 2)) = 1 \<and>
   mset (fst (pickReviewers fixedRand [bob] 2)) = {#''u2''#} \<and>
   (\<exists>created st' rnd'.
      CreatePullRequest (teamOf [alice, bob]) fixedRand 1 (request ''pr-3'' ''Merge twice'') =
        (Inr created, st', rnd') \<and>
      length (AssignedReviewers created) = 1)"
proof -
  have h: "schemaOK (teamOf [alice, bob]) \<and>
    Store_GetUser (teamOf [alice, bob]) (AuthorID (request ''pr-3'' ''Merge twice'')) = Inr alice \<and>
    prID (request ''pr-3'' ''Merge twice'') \<notin> pull_request_id ` set (pull_requests (teamOf [alice, bob])) \<and>
    length (filter (\<lambda>u. TeamName u = TeamName alice \<and>
        ID u \<noteq> AuthorID (request ''pr-3'' ''Merge twice'') \<and> IsActive u)
      (users (teamOf [alice, bob]))) = 1"
    by (simp add: schemaOK_def Store_GetUser_def fixture_defs)
  have l: "int (length [bob]) \<le> 2" by simp
  from pickReviewers_min_count [where rnd = fixedRand and us = "[bob]" and limit = 2
      and st = "teamOf [alice, bob]" and pr = "request ''pr-3'' ''Merge twice''"
      and author = alice and now = 1] h l
  show ?thesis by (simp add: bob_def)
qed

section \<open>Creation overwrites the caller's status and reviewers\<close>

text \<open>
  C9: the status and the reviewer list of the input of \<^verbatim>\<open>CreatePullRequest\<close> have no
  effect on the call. Once the author and the roster are loaded, the record handed to the
  store's \<^verbatim>\<open>CreatePullRequest\<close> has status OPEN and the engine's selection as its
  reviewers, with the other fields of the input and the current time as creation time. After
  a successful call the store holds the pull request with status OPEN and exactly the
  selected reviewer rows.
\<close>

theorem CreatePullRequest_overwrites_input:
  "CreatePullRequest st rnd now (pr\<lparr>Status := s, AssignedReviewers := rs\<rparr>) =
     CreatePullRequest st rnd now pr \<and>
   (Store_GetUser st (AuthorID pr) = Inr author \<and>
    Store_ListUsersByTeam st (TeamName author) = Inr members \<longrightarrow>
      (\<exists>rec. Status rec = StatusOpen \<and>
          AssignedReviewers rec = fst (pickReviewers rnd (filterReviewers members (AuthorID pr)) 2) \<and>
          prID rec = prID pr \<and> prName rec = prName pr \<and> AuthorID rec = AuthorID pr \<and>
          CreatedAt rec = now \<and> MergedAt rec = MergedAt pr \<and>
          fst (CreatePullRequest st rnd now pr) = fst (Store_CreatePullRequest st rec) \<and>
          fst (snd (CreatePullRequest st rnd now pr)) = snd (Store_CreatePullRequest st rec))) \<and>
   (schemaOK st \<and> Store_GetUser st (AuthorID pr) = Inr author \<and>
    CreatePullRequest st rnd now pr = (Inr created, st', rnd') \<longrightarrow>
      Store_GetPullRequest st' (prID pr) = Inr created \<and>
      Status created = StatusOpen \<and>
      AssignedReviewers created =
        sort (fst (pickReviewers rnd
          (filterReviewers (filter (\<lambda>u. TeamName u = TeamName author) (users st)) (AuthorID pr)) 2)) \<and>
      pull_request_reviewers st' =
        pull_request_reviewers st @
        map (Pair (prID pr)) (fst (pickReviewers rnd
          (filterReviewers (filter (\<lambda>u. TeamName u = TeamName author) (users st)) (AuthorID pr)) 2)))"
proof (intro conjI impI)
  show "CreatePullRequest st rnd now (pr\<lparr>Status := s, AssignedReviewers := rs\<rparr>) =
     CreatePullRequest st rnd now pr"
    by (simp add: CreatePullRequest_def Let_def split: sum.splits prod.splits)
next
  assume h: "Store_GetUser st (AuthorID pr) = Inr author \<and>
    Store_ListUsersByTeam st (TeamName author) = Inr members"
  let ?rec = "pr\<lparr>AssignedReviewers := fst (pickReviewers rnd (filterReviewers members (AuthorID pr)) 2),
            Status := StatusOpen, CreatedAt := now\<rparr>"
  from h have a: "Store_GetUser st (AuthorID pr) = Inr author"
    and m: "Store_ListUsersByTeam st (TeamName author) = Inr members" by simp_all
  have "CreatePullRequest st rnd now pr =
      (fst (Store_CreatePullRequest st ?rec), snd (Store_CreatePullRequest st ?rec),
       snd (pickReviewers rnd (filterReviewers members (AuthorID pr)) 2))"
    using a m by (rule CreatePullRequest_unfold)
  then show "\<exists>rec. Status rec = StatusOpen \<and>
          AssignedReviewers rec = fst (pickReviewers rnd (filterReviewers members (AuthorID pr)) 2) \<and>
          prID rec = prID pr \<and> prName rec = prName pr \<and> AuthorID rec = AuthorID pr \<and>
          CreatedAt rec = now \<and> MergedAt rec = MergedAt pr \<and>
          fst (CreatePullRequest st rnd now pr) = fst (Store_CreatePullRequest st rec) \<and>
          fst (snd (CreatePullRequest st rnd now pr)) = snd (Store_CreatePullRequest st rec)"
    by (intro exI [of _ ?rec]) simp
next
  assume h: "schemaOK st \<and> Store_GetUser st (AuthorID pr) = Inr author \<and>
    CreatePullRequest st rnd now pr = (Inr created, st', rnd')"
  let ?sel = "fst (pickReviewers rnd
          (filterReviewers (filter (\<lambda>u. TeamName u = TeamName author) (users st)) (AuthorID pr)) 2)"
  let ?rec = "pr\<lparr>AssignedReviewers := ?sel, Status := StatusOpen, CreatedAt := now\<rparr>"
  from h have ok: "schemaOK st" and a: "Store_GetUser st (AuthorID pr) = Inr author"
    and c: "CreatePullRequest st rnd now pr = (Inr created, st', rnd')" by simp_all
  from Store_GetUser_Inr [OF a] have au: "author \<in> set (users st)" by simp
  have m: "Store_ListUsersByTeam st (TeamName author) =
      Inr (filter (\<lambda>u. TeamName u = TeamName author) (users st))"
    using ok au by (rule Store_ListUsersByTeam_member)
  from CreatePullRequest_unfold [OF a m, of rnd now] c
  have sc: "Store_CreatePullRequest st ?rec = (Inr created, st')"
    by (simp add: prod_eq_iff)
  note r = Store_CreatePullRequest_Inr [OF ok sc]
  have fresh: "prID pr \<notin> pull_request_id ` set (pull_requests st)" using r(3) by simp
  show "Store_GetPullRequest st' (prID pr) = Inr created"
    using Store_GetPullRequest_afterCreate [OF ok, of ?rec] fresh r(1) r(2) by simp
  show "Status created = StatusOpen" using r(1) by simp
  show "AssignedReviewers created = sort ?sel" using r(1) by simp
  show "pull_request_reviewers st' = pull_request_reviewers st @ map (Pair (prID pr)) ?sel"
    using r(2) by (simp add: afterCreate_def)
qed

theorem CreatePullRequest_overwrites_input_witness:
  "CreatePullRequest (teamOf [alice, bob, charlie]) fixedRand 1
     ((request ''pr-1'' ''Initial'')\<lparr>Status := ''MERGED'', AssignedReviewers := [''u1'']\<rparr>) =
   CreatePullRequest (teamOf [alice, bob, charlie]) fixedRand 1 (request ''pr-1'' ''Initial'') \<and>
   (\<exists>rec. Status rec = StatusOpen \<and> AssignedReviewers rec = [''u3'', ''u2''] \<and>
      fst (CreatePullRequest (teamOf [alice, bob, charlie]) fixedRand 1 (request ''pr-1'' ''Initial'')) =
      fst (Store_CreatePullRequest (teamOf [alice, bob, charlie]) rec)) \<and>
   pull_request_reviewers (fst (snd
      (CreatePullRequest (teamOf [alice, bob, charlie]) fixedRand 1 (request ''pr-1'' ''Initial'')))) =
     [(''pr-1'', ''u3''), (''pr-1'', ''u2'')]"
proof -
  let ?st = "teamOf [alice, bob, charlie]"
  let ?pr = "request ''pr-1'' ''Initial''"
  have ok: "schemaOK ?st" by (simp add: schemaOK_def fixture_defs)
  have a: "Store_GetUser ?st (AuthorID ?pr) = Inr alice"
    by (simp add: Store_GetUser_def fixture_defs)
  have m: "Store_ListUsersByTeam ?st (TeamName alice) = Inr [alice, bob, charlie]"
    by (simp add: Store_ListUsersByTeam_def fixture_defs)
  have sel: "fst (pickReviewers fixedRand (filterReviewers [alice, bob, charlie] (AuthorID ?pr)) 2) =
      [''u3'', ''u2'']"
    by (simp add: pickReviewers_def Shuffle_def Intn_def swap_def collectIDs.simps fixture_defs)
  have fl: "filter (\<lambda>u. TeamName u = TeamName alice) (users ?st) = [alice, bob, charlie]"
    by (simp add: fixture_defs)
  have fresh: "prID ?pr \<notin> pull_request_id ` set (pull_requests ?st)"
    by (simp add: fixture_defs)
  obtain picked rnd' where p: "pickReviewers fixedRand
      (filterReviewers (filter (\<lambda>u. TeamName u = TeamName alice) (users ?st)) (AuthorID ?pr)) 2 =
      (picked, rnd')"
    by (cases "pickReviewers fixedRand
      (filterReviewers (filter (\<lambda>u. TeamName u = TeamName alice) (users ?st)) (AuthorID ?pr)) 2")
  from CreatePullRequest_ok [OF ok a fresh p, of 1]
  obtain created st' where c: "CreatePullRequest ?st fixedRand 1 ?pr = (Inr created, st', rnd')"
    by blast
  from CreatePullRequest_overwrites_input [where st = "?st" and rnd = fixedRand and now = 1
      and pr = "?pr" and s = "''MERGED''" and rs = "[''u1'']" and author = alice
      and members = "[alice, bob, charlie]" and created = created and st' = st' and rnd' = rnd']
    ok a m c
  show ?thesis unfolding sel fl by (auto simp: request_def teamOf_def)
qed

section \<open>Merging is idempotent\<close>

text \<open>
  C2: when the stored pull request is already MERGED, \<^verbatim>\<open>MergePullRequest\<close> returns the
  stored record as it is and leaves the store as it was. Hence after any successful merge, a
  second merge at any later time returns the very record of the first, with the same status
  and the same merge timestamp, and writes nothing.
\<close>

theorem MergePullRequest_idempotent:
  "(Store_GetPullRequest st p = Inr pr \<and> Status pr = StatusMerged \<longrightarrow>
      MergePullRequest st now p = (Inr pr, st)) \<and>
   (MergePullRequest st now p = (Inr first, st1) \<longrightarrow>
      Status first = StatusMerged \<and> MergePullRequest st1 later p = (Inr first, st1))"
proof (intro conjI impI)
  assume "Store_GetPullRequest st p = Inr pr \<and> Status pr = StatusMerged"
  then show "MergePullRequest st now p = (Inr pr, st)"
    by (simp add: MergePullRequest_merged)
next
  assume m: "MergePullRequest st now p = (Inr first, st1)"
  then obtain pr where g: "Store_GetPullRequest st p = Inr pr"
    by (cases "Store_GetPullRequest st p") (auto simp: MergePullRequest_def)
  have "Status first = StatusMerged \<and> Store_GetPullRequest st1 p = Inr first"
  proof (cases "Status pr = StatusMerged")
    case True
    then show ?thesis using m g by (simp add: MergePullRequest_def)
  next
    case False
    let ?pr = "pr\<lparr>Status := StatusMerged, MergedAt := Some now\<rparr>"
    from m g False have u: "Store_UpdatePullRequest st ?pr = (Inr first, st1)"
      by (simp add: MergePullRequest_def)
    note r = Store_UpdatePullRequest_Inr [OF u]
    have p: "prID pr = p" using Store_GetPullRequest_Inr(1) [OF g] .
    from Store_GetPullRequest_afterUpdate [of ?pr st] r(4) r(5) r(6) p
    show ?thesis by simp
  qed
  then show "Status first = StatusMerged" and "MergePullRequest st1 later p = (Inr first, st1)"
    by (simp_all add: MergePullRequest_merged)
qed

theorem MergePullRequest_idempotent_witness:
  "MergePullRequest reviewStore 5 ''pr-1'' =
     (Inr \<lparr>prID = ''pr-1'', prName = ''Initial'', AuthorID = ''u1'', Status = ''MERGED'',
           AssignedReviewers = [''u2'', ''u3''], CreatedAt = 1, MergedAt = Some 5\<rparr>,
      mergedStore) \<and>
   MergePullRequest mergedStore 9 ''pr-1'' =
     (Inr \<lparr>prID = ''pr-1'', prName = ''Initial'', AuthorID = ''u1'', Status = ''MERGED'',
           AssignedReviewers = [''u2'', ''u3''], CreatedAt = 1, MergedAt = Some 5\<rparr>,
      mergedStore)"
proof -
  let ?merged = "\<lparr>prID = ''pr-1'', prName = ''Initial'', AuthorID = ''u1'', Status = ''MERGED'',
          AssignedReviewers = [''u2'', ''u3''], CreatedAt = 1, MergedAt = Some 5\<rparr>"
  have m: "MergePullRequest reviewStore 5 ''pr-1'' = (Inr ?merged, mergedStore)"
    by (simp add: MergePullRequest_def store_defs fixture_defs)
  have g: "Store_GetPullRequest mergedStore ''pr-1'' = Inr ?merged \<and> Status ?merged = StatusMerged"
    by (simp add: store_defs fixture_defs)
  from MergePullRequest_idempotent [where st = mergedStore and now = 9 and p = "''pr-1''"
      and pr = "?merged"] g
  have again: "MergePullRequest mergedStore 9 ''pr-1'' = (Inr ?merged, mergedStore)"
    by blast
  from MergePullRequest_idempotent [where st = reviewStore and now = 5 and p = "''pr-1''"
      and first = "?merged" and ?st1.0 = mergedStore and later = 9] m
  have "Status ?merged = StatusMerged \<and>
      MergePullRequest mergedStore 9 ''pr-1'' = (Inr ?merged, mergedStore)"
    by blast
  with m again show ?thesis by simp
qed

section \<open>Merging changes the status and the merge timestamp only\<close>

text \<open>
  C10: in a store that satisfies the schema's constraints, merging a stored pull request
  that is not MERGED (an OPEN one) succeeds, and the record it returns, which is the one the
  store then holds, has the loaded record's id, name, author, reviewers and creation time;
  its status is MERGED and its merge timestamp is the current time.
\<close>

theorem MergePullRequest_frame:
  assumes ok: "schemaOK st" and g: "Store_GetPullRequest st p = Inr pr"
    and s: "Status pr \<noteq> StatusMerged"
  shows "\<exists>merged st'. MergePullRequest st now p = (Inr merged, st') \<and>
     Store_GetPullRequest st' p = Inr merged \<and>
     prID merged = prID pr \<and> prName merged = prName pr \<and> AuthorID merged = AuthorID pr \<and>
     AssignedReviewers merged = AssignedReviewers pr \<and> CreatedAt merged = CreatedAt pr \<and>
     Status merged = StatusMerged \<and> MergedAt merged = Some now"
proof -
  let ?pr = "pr\<lparr>Status := StatusMerged, MergedAt := Some now\<rparr>"
  note r = Store_GetPullRequest_schemaOK [OF ok g]
  have srt: "sort (AssignedReviewers pr) = AssignedReviewers pr"
    using r(3) by (simp add: sort_key_id_if_sorted)
  have p: "prID pr = p" using Store_GetPullRequest_Inr(1) [OF g] .
  have "Store_GetPullRequest (afterUpdate st ?pr) p = Inr ?pr"
    using Store_GetPullRequest_afterUpdate [of ?pr st] r(5) p srt by simp
  then show ?thesis using MergePullRequest_open [OF ok g s, of now] by simp
qed

theorem MergePullRequest_frame_witness:
  "\<exists>merged st'. MergePullRequest reviewStore 5 ''pr-1'' = (Inr merged, st') \<and>
     Store_GetPullRequest st' ''pr-1'' = Inr merged \<and>
     prID merged = ''pr-1'' \<and> prName merged = ''Initial'' \<and> AuthorID merged = ''u1'' \<and>
     AssignedReviewers merged = [''u2'', ''u3''] \<and> CreatedAt merged = 1 \<and>
     Status merged = StatusMerged \<and> MergedAt merged = Some 5"
proof -
  have ok: "schemaOK reviewStore"
    by (simp add: schemaOK_def fixture_defs)
  have g: "Store_GetPullRequest reviewStore ''pr-1'' =
     Inr \<lparr>prID = ''pr-1'', prName = ''Initial'', AuthorID = ''u1'', Status = ''OPEN'',
          AssignedReviewers = [''u2'', ''u3''], CreatedAt = 1, MergedAt = None\<rparr>"
    by (simp add: store_defs fixture_defs)
  from MergePullRequest_frame [OF ok g, of 5] show ?thesis
    by (simp add: StatusMerged_def)
qed


section \<open>The replacement chosen by a reassignment\<close>

text \<open>
  C5: after a successful \<^verbatim>\<open>ReassignReviewer\<close> on a store that satisfies the schema's
  constraints, the replacement is not one of the remaining reviewers of the loaded pull
  request, is not the removed reviewer, and is an active user.
\<close>

theorem ReassignReviewer_replacement:
  assumes ok: "schemaOK st"
    and g: "Store_GetPullRequest st p = Inr pr"
    and r: "ReassignReviewer st rnd p old = (Inr (updated, new), st', rnd')"
  shows "new \<notin> set (AssignedReviewers pr) - {old} \<and> new \<noteq> old \<and>
     (\<exists>u. Store_GetUser st new = Inr u \<and> IsActive u)"
proof -
  from r obtain pr' oldReviewer members rest where
    g': "Store_GetPullRequest st p = Inr pr'"
    and "Status pr' \<noteq> StatusMerged"
    and "old \<in> set (AssignedReviewers pr')"
    and "Store_GetUser st old = Inr oldReviewer"
    and m: "Store_ListUsersByTeam st (TeamName oldReviewer) = Inr members"
    and pk: "pickReviewers rnd (filterForReplacement members old (AssignedReviewers pr')) 1 =
           (new # rest, rnd')"
    and "Store_UpdatePullRequest st
       (pr'\<lparr>AssignedReviewers :=
             (AssignedReviewers pr')[nat (reviewerIndex (AssignedReviewers pr') old) := new]\<rparr>) =
     (Inr updated, st')"
    by (rule ReassignReviewer_Inr)
  from g g' have [simp]: "pr' = pr" by simp
  from replacement_candidate [OF pk] obtain u where
    u: "u \<in> set members" "ID u = new" "ID u \<noteq> old" "IsActive u" "new \<notin> set (AssignedReviewers pr)"
    by auto
  have "u \<in> set (users st)" using u(1) Store_ListUsersByTeam_Inr [OF m] by simp
  then have "Store_GetUser st (ID u) = Inr u"
    using ok by (intro Store_GetUser_distinct) (simp_all add: schemaOK_def)
  then show ?thesis using u by auto
qed

theorem ReassignReviewer_replacement_witness:
  "''u4'' \<notin> set [''u2'', ''u3''] - {''u2''} \<and> ''u4'' \<noteq> ''u2'' \<and>
   (\<exists>u. Store_GetUser reassignStore ''u4'' = Inr u \<and> IsActive u)"
proof -
  have ok: "schemaOK reassignStore"
    by (simp add: schemaOK_def fixture_defs)
  have g: "Store_GetPullRequest reassignStore ''pr-2'' =
     Inr \<lparr>prID = ''pr-2'', prName = ''Replace reviewer'', AuthorID = ''u1'', Status = ''OPEN'',
          AssignedReviewers = [''u2'', ''u3''], CreatedAt = 1, MergedAt = None\<rparr>"
    by (simp add: store_defs fixture_defs)
  have r: "ReassignReviewer reassignStore fixedRand ''pr-2'' ''u2'' =
     (Inr (\<lparr>prID = ''pr-2'', prName = ''Replace reviewer'', AuthorID = ''u1'', Status = ''OPEN'',
            AssignedReviewers = [''u3'', ''u4''], CreatedAt = 1, MergedAt = None\<rparr>, ''u4''),
      snd (ReassignReviewer reassignStore fixedRand ''pr-2'' ''u2''))"
    by (simp add: ReassignReviewer_def store_defs engine_defs fixture_defs)
  from ReassignReviewer_replacement [OF ok g, where rnd = fixedRand and old = "''u2''"
      and new = "''u4''"
      and st' = "fst (snd (ReassignReviewer reassignStore fixedRand ''pr-2'' ''u2''))"
      and rnd' = "snd (snd (ReassignReviewer reassignStore fixedRand ''pr-2'' ''u2''))"] r
  show ?thesis by simp
qed

section \<open>The errors of a reassignment, in order\<close>

text \<open>
  C6: \<^verbatim>\<open>ReassignReviewer\<close> fails with \<open>ErrPullRequestNotFound\<close> when the pull request
  does not exist; otherwise with \<open>ErrPRMerged\<close> when its status is MERGED; otherwise with
  \<open>ErrReviewerNotFound\<close> (the transport's NOT_ASSIGNED) when the old reviewer is not among
  its reviewers; otherwise with \<open>ErrUserNotFound\<close> when the old reviewer is not a stored
  user; otherwise, in a store that satisfies the schema's constraints, with
  \<open>ErrNoReplacement\<close> exactly when the filtered candidate pool is empty, and it succeeds when
  the pool is not empty. A failed call leaves the store and the random source as they were.
  The transport reports these errors as NOT_FOUND, PR_MERGED, NOT_ASSIGNED, NOT_FOUND and
  NO_CANDIDATE.
\<close>

theorem ReassignReviewer_errors:
  "(p \<notin> pull_request_id ` set (pull_requests st) \<longrightarrow>
      ReassignReviewer st rnd p old = (Inl ErrPullRequestNotFound, st, rnd)) \<and>
   (Store_GetPullRequest st p = Inr pr \<longrightarrow>
      (Status pr = StatusMerged \<longrightarrow>
         ReassignReviewer st rnd p old = (Inl ErrPRMerged, st, rnd)) \<and>
      (Status pr \<noteq> StatusMerged \<and> old \<notin> set (AssignedReviewers pr) \<longrightarrow>
         ReassignReviewer st rnd p old = (Inl ErrReviewerNotFound, st, rnd)) \<and>
      (Status pr \<noteq> StatusMerged \<and> old \<in> set (AssignedReviewers pr) \<longrightarrow>
         (old \<notin> ID ` set (users st) \<longrightarrow>
            ReassignReviewer st rnd p old = (Inl ErrUserNotFound, st, rnd)) \<and>
         (schemaOK st \<and> Store_GetUser st old = Inr oldReviewer \<longrightarrow>
            (filterForReplacement (filter (\<lambda>u. TeamName u = TeamName oldReviewer) (users st))
               old (AssignedReviewers pr) = [] \<longrightarrow>
               ReassignReviewer st rnd p old = (Inl ErrNoReplacement, st, rnd)) \<and>
            (filterForReplacement (filter (\<lambda>u. TeamName u = TeamName oldReviewer) (users st))
               old (AssignedReviewers pr) \<noteq> [] \<longrightarrow>
               (\<exists>updated new. fst (ReassignReviewer st rnd p old) = Inr (updated, new)))))) \<and>
   map errorCode [ErrPullRequestNotFound, ErrPRMerged, ErrReviewerNotFound, ErrUserNotFound,
     ErrNoReplacement] =
     [''NOT_FOUND'', ''PR_MERGED'', ''NOT_ASSIGNED'', ''NOT_FOUND'', ''NO_CANDIDATE'']"
proof (intro conjI impI)
  show "map errorCode [ErrPullRequestNotFound, ErrPRMerged, ErrReviewerNotFound, ErrUserNotFound,
     ErrNoReplacement] =
     [''NOT_FOUND'', ''PR_MERGED'', ''NOT_ASSIGNED'', ''NOT_FOUND'', ''NO_CANDIDATE'']"
    by simp
next
  assume "p \<notin> pull_request_id ` set (pull_requests st)"
  then have "Store_GetPullRequest st p = Inl ErrPullRequestNotFound"
    by (simp add: Store_GetPullRequest_Inl)
  then show "ReassignReviewer st rnd p old = (Inl ErrPullRequestNotFound, st, rnd)"
    by (simp add: ReassignReviewer_def)
next
  assume "Store_GetPullRequest st p = Inr pr" "Status pr = StatusMerged"
  then show "ReassignReviewer st rnd p old = (Inl ErrPRMerged, st, rnd)"
    by (simp add: ReassignReviewer_def)
next
  assume "Store_GetPullRequest st p = Inr pr"
    "Status pr \<noteq> StatusMerged \<and> old \<notin> set (AssignedReviewers pr)"
  then show "ReassignReviewer st rnd p old = (Inl ErrReviewerNotFound, st, rnd)"
    using reviewerIndex_absent [of "AssignedReviewers pr" old]
    by (simp add: ReassignReviewer_def)
next
  assume g: "Store_GetPullRequest st p = Inr pr"
    and s: "Status pr \<noteq> StatusMerged \<and> old \<in> set (AssignedReviewers pr)"
    and n: "old \<notin> ID ` set (users st)"
  from n have "Store_GetUser st old = Inl ErrUserNotFound"
    by (simp add: Store_GetUser_Inl)
  then show "ReassignReviewer st rnd p old = (Inl ErrUserNotFound, st, rnd)"
    using g s reviewerIndex_absent [of "AssignedReviewers pr" old]
    by (simp add: ReassignReviewer_def)
next
  assume g: "Store_GetPullRequest st p = Inr pr"
    and s: "Status pr \<noteq> StatusMerged \<and> old \<in> set (AssignedReviewers pr)"
    and o: "schemaOK st \<and> Store_GetUser st old = Inr oldReviewer"
    and e: "filterForReplacement (filter (\<lambda>u. TeamName u = TeamName oldReviewer) (users st))
               old (AssignedReviewers pr) = []"
  from o have "oldReviewer \<in> set (users st)" using Store_GetUser_Inr by blast
  with o have "Store_ListUsersByTeam st (TeamName oldReviewer) =
      Inr (filter (\<lambda>u. TeamName u = TeamName oldReviewer) (users st))"
    by (simp add: Store_ListUsersByTeam_member)
  then show "ReassignReviewer st rnd p old = (Inl ErrNoReplacement, st, rnd)"
    using g s o e reviewerIndex_absent [of "AssignedReviewers pr" old]
    by (simp add: ReassignReviewer_def)
next
  assume g: "Store_GetPullRequest st p = Inr pr"
    and s: "Status pr \<noteq> StatusMerged \<and> old \<in> set (AssignedReviewers pr)"
    and o: "schemaOK st \<and> Store_GetUser st old = Inr oldReviewer"
    and e: "filterForReplacement (filter (\<lambda>u. TeamName u = TeamName oldReviewer) (users st))
               old (AssignedReviewers pr) \<noteq> []"
  let ?members = "filter (\<lambda>u. TeamName u = TeamName oldReviewer) (users st)"
  from o have ok: "schemaOK st" and u: "Store_GetUser st old = Inr oldReviewer" by simp_all
  from s have s1: "Status pr \<noteq> StatusMerged" and i: "old \<in> set (AssignedReviewers pr)"
    by simp_all
  have "oldReviewer \<in> set (users st)" using u Store_GetUser_Inr by blast
  then have m: "Store_ListUsersByTeam st (TeamName oldReviewer) = Inr ?members"
    using ok by (simp add: Store_ListUsersByTeam_member)
  from ReassignReviewer_unfold [OF g s1 i u m e, of rnd]
  obtain new rest rnd' where
    pk: "pickReviewers rnd (filterForReplacement ?members old (AssignedReviewers pr)) 1 = (new # rest, rnd')"
    and eq: "ReassignReviewer st rnd p old =
       (case Store_UpdatePullRequest st
               (pr\<lparr>AssignedReviewers :=
                     (AssignedReviewers pr)[nat (reviewerIndex (AssignedReviewers pr) old) := new]\<rparr>) of
          (Inl err, st') \<Rightarrow> (Inl err, st', rnd')
        | (Inr updatedPR, st') \<Rightarrow> (Inr (updatedPR, new), st', rnd'))"
    by blast
  from ReassignReviewer_update_ok(1) [OF ok g i m pk] eq
  show "\<exists>updated new. fst (ReassignReviewer st rnd p old) = Inr (updated, new)"
    by simp
qed

theorem ReassignReviewer_errors_witness:
  "ReassignReviewer reassignStore fixedRand ''pr-9'' ''u2'' =
     (Inl ErrPullRequestNotFound, reassignStore, fixedRand) \<and>
   ReassignReviewer mergedStore fixedRand ''pr-1'' ''u2'' =
     (Inl ErrPRMerged, mergedStore, fixedRand) \<and>
   ReassignReviewer reassignStore fixedRand ''pr-2'' ''u4'' =
     (Inl ErrReviewerNotFound, reassignStore, fixedRand) \<and>
   ReassignReviewer (reassignStore\<lparr>users := [alice]\<rparr>) fixedRand ''pr-2'' ''u2'' =
     (Inl ErrUserNotFound, reassignStore\<lparr>users := [alice]\<rparr>, fixedRand) \<and>
   ReassignReviewer (reviewStore\<lparr>users := [alice\<lparr>IsActive := False\<rparr>, bob, charlie]\<rparr>)
       fixedRand ''pr-1'' ''u2'' =
     (Inl ErrNoReplacement, reviewStore\<lparr>users := [alice\<lparr>IsActive := False\<rparr>, bob, charlie]\<rparr>,
      fixedRand) \<and>
   (\<exists>updated new.
      fst (ReassignReviewer reassignStore fixedRand ''pr-2'' ''u2'') = Inr (updated, new))"
proof -
  let ?open2 = "\<lparr>prID = ''pr-2'', prName = ''Replace reviewer'', AuthorID = ''u1'', Status = ''OPEN'',
          AssignedReviewers = [''u2'', ''u3''], CreatedAt = 1, MergedAt = None\<rparr>"
  let ?open1 = "\<lparr>prID = ''pr-1'', prName = ''Initial'', AuthorID = ''u1'', Status = ''OPEN'',
          AssignedReviewers = [''u2'', ''u3''], CreatedAt = 1, MergedAt = None\<rparr>"
  let ?merged1 = "\<lparr>prID = ''pr-1'', prName = ''Initial'', AuthorID = ''u1'', Status = ''MERGED'',
          AssignedReviewers = [''u2'', ''u3''], CreatedAt = 1, MergedAt = Some 5\<rparr>"
  let ?ghost = "reassignStore\<lparr>users := [alice]\<rparr>"
  let ?idle = "reviewStore\<lparr>users := [alice\<lparr>IsActive := False\<rparr>, bob, charlie]\<rparr>"
  have h1: "''pr-9'' \<notin> pull_request_id ` set (pull_requests reassignStore)"
    by (simp add: fixture_defs)
  have h2: "Store_GetPullRequest mergedStore ''pr-1'' = Inr ?merged1 \<and> Status ?merged1 = StatusMerged"
    by (simp add: store_defs fixture_defs)
  have h3: "Store_GetPullRequest reassignStore ''pr-2'' = Inr ?open2 \<and>
      Status ?open2 \<noteq> StatusMerged \<and> ''u4'' \<notin> set (AssignedReviewers ?open2)"
    by (simp add: store_defs fixture_defs)
  have h4: "Store_GetPullRequest ?ghost ''pr-2'' = Inr ?open2 \<and>
      Status ?open2 \<noteq> StatusMerged \<and> ''u2'' \<in> set (AssignedReviewers ?open2) \<and>
      ''u2'' \<notin> ID ` set (users ?ghost)"
    by (simp add: store_defs fixture_defs)
  have h5: "Store_GetPullRequest ?idle ''pr-1'' = Inr ?open1 \<and>
      Status ?open1 \<noteq> StatusMerged \<and> ''u2'' \<in> set (AssignedReviewers ?open1) \<and>
      schemaOK ?idle \<and> Store_GetUser ?idle ''u2'' = Inr bob \<and>
      filterForReplacement (filter (\<lambda>u. TeamName u = TeamName bob) (users ?idle))
        ''u2'' (AssignedReviewers ?open1) = []"
    by (simp add: store_defs fixture_defs)
  have h6: "Store_GetPullRequest reassignStore ''pr-2'' = Inr ?open2 \<and>
      Status ?open2 \<noteq> StatusMerged \<and> ''u2'' \<in> set (AssignedReviewers ?open2) \<and>
      schemaOK reassignStore \<and> Store_GetUser reassignStore ''u2'' = Inr bob \<and>
      filterForReplacement (filter (\<lambda>u. TeamName u = TeamName bob) (users reassignStore))
        ''u2'' (AssignedReviewers ?open2) \<noteq> []"
    by (simp add: store_defs fixture_defs)
  from ReassignReviewer_errors [where st = reassignStore and rnd = fixedRand and p = "''pr-9''"
      and old = "''u2''"] h1
  have c1: "ReassignReviewer reassignStore fixedRand ''pr-9'' ''u2'' =
     (Inl ErrPullRequestNotFound, reassignStore, fixedRand)"
    by blast
  from ReassignReviewer_errors [where st = mergedStore and rnd = fixedRand and p = "''pr-1''"
      and old = "''u2''" and pr = "?merged1"] h2
  have c2: "ReassignReviewer mergedStore fixedRand ''pr-1'' ''u2'' =
     (Inl ErrPRMerged, mergedStore, fixedRand)"
    by blast
  from ReassignReviewer_errors [where st = reassignStore and rnd = fixedRand and p = "''pr-2''"
      and old = "''u4''" and pr = "?open2"] h3
  have c3: "ReassignReviewer reassignStore fixedRand ''pr-2'' ''u4'' =
     (Inl ErrReviewerNotFound, reassignStore, fixedRand)"
    by blast
  from ReassignReviewer_errors [where st = "?ghost" and rnd = fixedRand and p = "''pr-2''"
      and old = "''u2''" and pr = "?open2"] h4
  have c4: "ReassignReviewer ?ghost fixedRand ''pr-2'' ''u2'' = (Inl ErrUserNotFound, ?ghost, fixedRand)"
    by blast
  from ReassignReviewer_errors [where st = "?idle" and rnd = fixedRand and p = "''pr-1''"
      and old = "''u2''" and pr = "?open1" and oldReviewer = bob] h5
  have c5: "ReassignReviewer ?idle fixedRand ''pr-1'' ''u2'' = (Inl ErrNoReplacement, ?idle, fixedRand)"
    by blast
  from ReassignReviewer_errors [where st = reassignStore and rnd = fixedRand and p = "''pr-2''"
      and old = "''u2''" and pr = "?open2" and oldReviewer = bob] h6
  have c6: "\<exists>updated new.
      fst (ReassignReviewer reassignStore fixedRand ''pr-2'' ''u2'') = Inr (updated, new)"
    by blast
  from c1 c2 c3 c4 c5 c6 show ?thesis by blast
qed


section \<open>Where a reassignment puts the new reviewer\<close>

text \<open>
  C8, as stated, fails for the record the operation returns: the store lists reviewers
  \<^verbatim>\<open>ORDER BY reviewer_id\<close>, so the pull request returned after replacing u2 (position 0 of
  u2, u3) by u4 has the reviewers u3, u4: position 0 does not hold the new reviewer, and
  position 1 has changed.
\<close>

theorem ReassignReviewer_same_position_counterexample:
  "Store_GetPullRequest reassignStore ''pr-2'' =
     Inr \<lparr>prID = ''pr-2'', prName = ''Replace reviewer'', AuthorID = ''u1'', Status = ''OPEN'',
          AssignedReviewers = [''u2'', ''u3''], CreatedAt = 1, MergedAt = None\<rparr> \<and>
   reviewerIndex [''u2'', ''u3''] ''u2'' = 0 \<and>
   fst (ReassignReviewer reassignStore fixedRand ''pr-2'' ''u2'') =
     Inr (\<lparr>prID = ''pr-2'', prName = ''Replace reviewer'', AuthorID = ''u1'', Status = ''OPEN'',
           AssignedReviewers = [''u3'', ''u4''], CreatedAt = 1, MergedAt = None\<rparr>, ''u4'') \<and>
   [''u3'', ''u4''] ! 0 \<noteq> ''u4'' \<and> [''u3'', ''u4''] ! 1 \<noteq> [''u2'', ''u3''] ! 1"
  by (simp add: ReassignReviewer_def store_defs engine_defs fixture_defs)

text \<open>
  C8, amended: for every successful \<^verbatim>\<open>ReassignReviewer\<close> on a store that satisfies the
  schema's constraints, the record handed to the store's \<^verbatim>\<open>UpdatePullRequest\<close> is the
  loaded one with the new reviewer written at the index of the old one, every other index
  unchanged. The pull request returned is that record with its reviewers in the store's
  order (sorted by id); it is the record the store then holds, its reviewers are the loaded
  ones with the old reviewer replaced by the new one, as many as before, and the new
  reviewer returned with it is among them.
\<close>

theorem ReassignReviewer_replaces:
  assumes ok: "schemaOK st"
    and g: "Store_GetPullRequest st p = Inr pr"
    and r: "ReassignReviewer st rnd p old = (Inr (updated, new), st', rnd')"
  shows "nat (reviewerIndex (AssignedReviewers pr) old) < length (AssignedReviewers pr) \<and>
     AssignedReviewers pr ! nat (reviewerIndex (AssignedReviewers pr) old) = old \<and>
     Store_UpdatePullRequest st
       (pr\<lparr>AssignedReviewers :=
             (AssignedReviewers pr)[nat (reviewerIndex (AssignedReviewers pr) old) := new]\<rparr>) =
       (Inr updated, st') \<and>
     updated = pr\<lparr>AssignedReviewers :=
       sort ((AssignedReviewers pr)[nat (reviewerIndex (AssignedReviewers pr) old) := new])\<rparr> \<and>
     set (AssignedReviewers updated) = insert new (set (AssignedReviewers pr) - {old}) \<and>
     length (AssignedReviewers updated) = length (AssignedReviewers pr) \<and>
     new \<in> set (AssignedReviewers updated) \<and>
     Store_GetPullRequest st' p = Inr updated"
proof -
  from r obtain pr' oldReviewer members rest where
    g': "Store_GetPullRequest st p = Inr pr'"
    and "Status pr' \<noteq> StatusMerged"
    and i': "old \<in> set (AssignedReviewers pr')"
    and "Store_GetUser st old = Inr oldReviewer"
    and m: "Store_ListUsersByTeam st (TeamName oldReviewer) = Inr members"
    and pk': "pickReviewers rnd (filterForReplacement members old (AssignedReviewers pr')) 1 =
           (new # rest, rnd')"
    and u': "Store_UpdatePullRequest st
       (pr'\<lparr>AssignedReviewers :=
             (AssignedReviewers pr')[nat (reviewerIndex (AssignedReviewers pr') old) := new]\<rparr>) =
     (Inr updated, st')"
    by (rule ReassignReviewer_Inr)
  from g g' have e: "pr' = pr" by simp
  note i = i' [unfolded e] and pk = pk' [unfolded e] and u = u' [unfolded e]
  let ?rs = "(AssignedReviewers pr)[nat (reviewerIndex (AssignedReviewers pr) old) := new]"
  note x = reviewerIndex_present [OF i]
  note k = ReassignReviewer_update_ok [OF ok g i m pk]
  from k(1) u have upd: "updated = pr\<lparr>AssignedReviewers := sort ?rs\<rparr>"
    and st': "st' = afterUpdate st (pr\<lparr>AssignedReviewers := ?rs\<rparr>)"
    by simp_all
  have "set (AssignedReviewers updated) = insert new (set (AssignedReviewers pr) - {old})"
    using k(2) upd by simp
  moreover have "length (AssignedReviewers updated) = length (AssignedReviewers pr)"
    using upd by simp
  moreover have "Store_GetPullRequest st' p = Inr updated"
    using k(3) upd st' by simp
  ultimately show ?thesis using x u upd by simp
qed

theorem ReassignReviewer_replaces_witness:
  "nat (reviewerIndex [''u2'', ''u3''] ''u2'') < length [''u2'', ''u3''] \<and>
   [''u2'', ''u3''] ! nat (reviewerIndex [''u2'', ''u3''] ''u2'') = ''u2'' \<and>
   fst (Store_UpdatePullRequest reassignStore
     \<lparr>prID = ''pr-2'', prName = ''Replace reviewer'', AuthorID = ''u1'', Status = ''OPEN'',
      AssignedReviewers = [''u4'', ''u3''], CreatedAt = 1, MergedAt = None\<rparr>) =
     Inr \<lparr>prID = ''pr-2'', prName = ''Replace reviewer'', AuthorID = ''u1'', Status = ''OPEN'',
          AssignedReviewers = [''u3'', ''u4''], CreatedAt = 1, MergedAt = None\<rparr> \<and>
   set [''u3'', ''u4''] = insert ''u4'' (set [''u2'', ''u3''] - {''u2''}) \<and>
   Store_GetPullRequest (fst (snd (ReassignReviewer reassignStore fixedRand ''pr-2'' ''u2''))) ''pr-2'' =
     Inr \<lparr>prID = ''pr-2'', prName = ''Replace reviewer'', AuthorID = ''u1'', Status = ''OPEN'',
          AssignedReviewers = [''u3'', ''u4''], CreatedAt = 1, MergedAt = None\<rparr>"
proof -
  let ?pr = "\<lparr>prID = ''pr-2'', prName = ''Replace reviewer'', AuthorID = ''u1'', Status = ''OPEN'',
          AssignedReviewers = [''u2'', ''u3''], CreatedAt = 1, MergedAt = None\<rparr>"
  let ?upd = "\<lparr>prID = ''pr-2'', prName = ''Replace reviewer'', AuthorID = ''u1'', Status = ''OPEN'',
          AssignedReviewers = [''u3'', ''u4''], CreatedAt = 1, MergedAt = None\<rparr>"
  have ok: "schemaOK reassignStore"
    by (simp add: schemaOK_def fixture_defs)
  have g: "Store_GetPullRequest reassignStore ''pr-2'' = Inr ?pr"
    by (simp add: store_defs fixture_defs)
  have r: "ReassignReviewer reassignStore fixedRand ''pr-2'' ''u2'' =
     (Inr (?upd, ''u4''), snd (ReassignReviewer reassignStore fixedRand ''pr-2'' ''u2''))"
    by (simp add: ReassignReviewer_def store_defs engine_defs fixture_defs)
  have i: "nat (reviewerIndex [''u2'', ''u3''] ''u2'') = 0"
    by (simp add: reviewerIndex_def)
  from ReassignReviewer_replaces [OF ok g, where rnd = fixedRand and old = "''u2''"
      and new = "''u4''" and updated = "?upd"
      and st' = "fst (snd (ReassignReviewer reassignStore fixedRand ''pr-2'' ''u2''))"
      and rnd' = "snd (snd (ReassignReviewer reassignStore fixedRand ''pr-2'' ''u2''))"] r
  show ?thesis by (simp add: i)
qed

section \<open>A reassignment can select the author\<close>

text \<open>
  C1 fails on the code: \<^verbatim>\<open>filterForReplacement\<close> excludes the old reviewer, inactive users
  and the assigned reviewers, but not the author, whom \<^verbatim>\<open>filterReviewers\<close> excludes at
  creation. In the team u1, u2, u3 of the tests, the pull request of u1 is created with the
  reviewers u2 and u3; reassigning u2 leaves u1 as the only candidate, so for every random
  source the author becomes a reviewer of the author's own pull request.
\<close>

theorem ReassignReviewer_selects_author:
  "CreateTeam emptyStore \<lparr>Name = ''backend'', Members = [alice, bob, charlie]\<rparr> =
     (Inr \<lparr>Name = ''backend'', Members = [alice, bob, charlie]\<rparr>, teamOf [alice, bob, charlie]) \<and>
   fst (CreatePullRequest (teamOf [alice, bob, charlie]) fixedRand 1 (request ''pr-1'' ''Initial'')) =
     Inr \<lparr>prID = ''pr-1'', prName = ''Initial'', AuthorID = ''u1'', Status = ''OPEN'',
          AssignedReviewers = [''u2'', ''u3''], CreatedAt = 1, MergedAt = None\<rparr> \<and>
   fst (snd (CreatePullRequest (teamOf [alice, bob, charlie]) fixedRand 1
     (request ''pr-1'' ''Initial''))) = reviewStore \<and>
   fst (ReassignReviewer reviewStore rnd ''pr-1'' ''u2'') =
     Inr (\<lparr>prID = ''pr-1'', prName = ''Initial'', AuthorID = ''u1'', Status = ''OPEN'',
           AssignedReviewers = [''u1'', ''u3''], CreatedAt = 1, MergedAt = None\<rparr>, ''u1'')"
proof (intro conjI)
  show "CreateTeam emptyStore \<lparr>Name = ''backend'', Members = [alice, bob, charlie]\<rparr> =
     (Inr \<lparr>Name = ''backend'', Members = [alice, bob, charlie]\<rparr>, teamOf [alice, bob, charlie])"
    by (rule example_CreateTeam)
  show "fst (CreatePullRequest (teamOf [alice, bob, charlie]) fixedRand 1 (request ''pr-1'' ''Initial'')) =
     Inr \<lparr>prID = ''pr-1'', prName = ''Initial'', AuthorID = ''u1'', Status = ''OPEN'',
          AssignedReviewers = [''u2'', ''u3''], CreatedAt = 1, MergedAt = None\<rparr>"
    using example_CreatePullRequest by (metis fst_conv)
  show "fst (snd (CreatePullRequest (teamOf [alice, bob, charlie]) fixedRand 1
     (request ''pr-1'' ''Initial''))) = reviewStore"
    using example_CreatePullRequest by (metis fst_conv snd_conv)
  show "fst (ReassignReviewer reviewStore rnd ''pr-1'' ''u2'') =
     Inr (\<lparr>prID = ''pr-1'', prName = ''Initial'', AuthorID = ''u1'', Status = ''OPEN'',
           AssignedReviewers = [''u1'', ''u3''], CreatedAt = 1, MergedAt = None\<rparr>, ''u1'')"
    by (simp add: ReassignReviewer_def store_defs engine_defs fixture_defs)
qed

section \<open>The merge timestamp and the status\<close>

text \<open>
  C7, as stated, fails: \<^verbatim>\<open>CreatePullRequest\<close> overwrites the status, the reviewers and the
  creation time of its input but keeps the input's \<^verbatim>\<open>MergedAt\<close>, so a request that carries
  a merge timestamp is stored and returned as an OPEN pull request with that timestamp.
\<close>

theorem CreatePullRequest_keeps_mergedAt_counterexample:
  "fst (CreatePullRequest (teamOf [alice, bob, charlie]) fixedRand 1
     ((request ''pr-1'' ''Initial'')\<lparr>MergedAt := Some 5\<rparr>)) =
   Inr \<lparr>prID = ''pr-1'', prName = ''Initial'', AuthorID = ''u1'', Status = ''OPEN'',
        AssignedReviewers = [''u2'', ''u3''], CreatedAt = 1, MergedAt = Some 5\<rparr>"
  by (simp add: CreatePullRequest_def store_defs engine_defs fixture_defs)

text \<open>
  C7, amended: in every store reached from the empty one by the service's operations, with
  creation requests that carry no merge timestamp (\<open>noMergedAt\<close>), every stored pull
  request has a merge timestamp exactly when its status is MERGED. From such a store, a successful creation
  returns an OPEN record without merge timestamp; a successful merge returns a MERGED
  record whose merge timestamp is the current time when the loaded record was not MERGED
  and the loaded record's timestamp when it was; a successful reassignment returns a record
  that is not MERGED and has no merge timestamp.
\<close>

theorem reachable_mergedAt_iff_merged:
  assumes re: "reachable noMergedAt st"
  shows "(Store_GetPullRequest st p = Inr pr \<longrightarrow>
       (MergedAt pr \<noteq> None) = (Status pr = StatusMerged)) \<and>
     (MergedAt inp = None \<and> CreatePullRequest st rnd now inp = (Inr created, st1, rnd1) \<longrightarrow>
       Status created = StatusOpen \<and> MergedAt created = None) \<and>
     (Store_GetPullRequest st p = Inr pr \<and> MergePullRequest st now p = (Inr merged, st2) \<longrightarrow>
       Status merged = StatusMerged \<and> MergedAt merged \<noteq> None \<and>
       MergedAt merged = (if Status pr = StatusMerged then MergedAt pr else Some now)) \<and>
     (ReassignReviewer st rnd p old = (Inr (updated, new), st3, rnd3) \<longrightarrow>
       Status updated \<noteq> StatusMerged \<and> MergedAt updated = None)"
proof (intro conjI impI)
  note ok = reachable_schemaOK [OF re] and inv = reachable_mergedAtOK [OF re]
  show "(MergedAt pr \<noteq> None) = (Status pr = StatusMerged)"
    if "Store_GetPullRequest st p = Inr pr"
    using inv that by (rule Store_GetPullRequest_mergedAtOK)
  {
    assume h: "MergedAt inp = None \<and> CreatePullRequest st rnd now inp = (Inr created, st1, rnd1)"
    then obtain picked where
      "Store_CreatePullRequest st
         (inp\<lparr>AssignedReviewers := picked, Status := StatusOpen, CreatedAt := now\<rparr>) =
       (Inr created, st1)"
      by (auto simp: CreatePullRequest_def Let_def split: sum.splits prod.splits)
    from Store_CreatePullRequest_Inr(1) [OF ok this] h
    show "Status created = StatusOpen" and "MergedAt created = None" by simp_all
  }
  {
    assume h: "Store_GetPullRequest st p = Inr pr \<and> MergePullRequest st now p = (Inr merged, st2)"
    then have g: "Store_GetPullRequest st p = Inr pr" by simp
    have "Status merged = StatusMerged \<and>
        MergedAt merged = (if Status pr = StatusMerged then MergedAt pr else Some now)"
    proof (cases "Status pr = StatusMerged")
      case True
      from MergePullRequest_merged [OF g True, of now] h have "merged = pr" by simp
      then show ?thesis using True by simp
    next
      case False
      from MergePullRequest_open [OF ok g False, of now] h
      have "merged = pr\<lparr>Status := StatusMerged, MergedAt := Some now\<rparr>" by simp
      then show ?thesis using False by simp
    qed
    moreover have "(MergedAt pr \<noteq> None) = (Status pr = StatusMerged)"
      using inv g by (rule Store_GetPullRequest_mergedAtOK)
    ultimately show "Status merged = StatusMerged" and "MergedAt merged \<noteq> None"
      and "MergedAt merged = (if Status pr = StatusMerged then MergedAt pr else Some now)"
      by (simp_all split: if_splits)
  }
  {
    assume r: "ReassignReviewer st rnd p old = (Inr (updated, new), st3, rnd3)"
    then obtain pr' oldReviewer members rest where
      g': "Store_GetPullRequest st p = Inr pr'"
      and s': "Status pr' \<noteq> StatusMerged"
      and "old \<in> set (AssignedReviewers pr')"
      and "Store_GetUser st old = Inr oldReviewer"
      and "Store_ListUsersByTeam st (TeamName oldReviewer) = Inr members"
      and "pickReviewers rnd (filterForReplacement members old (AssignedReviewers pr')) 1 =
             (new # rest, rnd3)"
      and u': "Store_UpdatePullRequest st
         (pr'\<lparr>AssignedReviewers :=
               (AssignedReviewers pr')[nat (reviewerIndex (AssignedReviewers pr') old) := new]\<rparr>) =
       (Inr updated, st3)"
      by (rule ReassignReviewer_Inr)
    have "(MergedAt pr' \<noteq> None) = (Status pr' = StatusMerged)"
      using inv g' by (rule Store_GetPullRequest_mergedAtOK)
    with s' Store_UpdatePullRequest_Inr(5) [OF u']
    show "Status updated \<noteq> StatusMerged" and "MergedAt updated = None" by simp_all
  }
qed

theorem reachable_mergedAt_iff_merged_witness:
  "reachable noMergedAt mergedStore \<and>
   Store_GetPullRequest mergedStore ''pr-1'' =
     Inr \<lparr>prID = ''pr-1'', prName = ''Initial'', AuthorID = ''u1'', Status = ''MERGED'',
          AssignedReviewers = [''u2'', ''u3''], CreatedAt = 1, MergedAt = Some 5\<rparr> \<and>
   (Some (5::int) \<noteq> None) = (''MERGED'' = StatusMerged) \<and>
   reachable noMergedAt reviewStore \<and>
   Store_GetPullRequest reviewStore ''pr-1'' =
     Inr \<lparr>prID = ''pr-1'', prName = ''Initial'', AuthorID = ''u1'', Status = ''OPEN'',
          AssignedReviewers = [''u2'', ''u3''], CreatedAt = 1, MergedAt = None\<rparr> \<and>
   ((None :: int option) \<noteq> None) = (''OPEN'' = StatusMerged)"
proof -
  let ?merged = "\<lparr>prID = ''pr-1'', prName = ''Initial'', AuthorID = ''u1'', Status = ''MERGED'',
          AssignedReviewers = [''u2'', ''u3''], CreatedAt = 1, MergedAt = Some 5\<rparr>"
  let ?open = "\<lparr>prID = ''pr-1'', prName = ''Initial'', AuthorID = ''u1'', Status = ''OPEN'',
          AssignedReviewers = [''u2'', ''u3''], CreatedAt = 1, MergedAt = None\<rparr>"
  have g: "Store_GetPullRequest mergedStore ''pr-1'' = Inr ?merged"
    by (simp add: store_defs fixture_defs)
  have g': "Store_GetPullRequest reviewStore ''pr-1'' = Inr ?open"
    by (simp add: store_defs fixture_defs)
  from reachable_mergedAt_iff_merged [OF reachable_examples(3), where p = "''pr-1''" and pr = "?merged"] g
  have 1: "(Some (5::int) \<noteq> None) = (''MERGED'' = StatusMerged)" by simp
  from reachable_mergedAt_iff_merged [OF reachable_examples(2), where p = "''pr-1''" and pr = "?open"] g'
  have 2: "((None :: int option) \<noteq> None) = (''OPEN'' = StatusMerged)" by simp
  from 1 2 g g' reachable_examples show ?thesis by blast
qed

end
